theory Spec2Isabelle
  imports Main
begin

section \<open>Services (pkg/git/service.go, lines 16-40)\<close>

text \<open>
  \<^verbatim>\<open>type Service string\<close>: a service is its wire name. The five constants are the
  defined kinds; any other string is still a value of the type.
\<close>

type_synonym Service = string

definition UploadPackService :: Service where
  "UploadPackService = ''git-upload-pack''"

definition UploadArchiveService :: Service where
  "UploadArchiveService = ''git-upload-archive''"

definition ReceivePackService :: Service where
  "ReceivePackService = ''git-receive-pack''"

definition LFSTransferService :: Service where
  "LFSTransferService = ''git-lfs-transfer''"

text \<open>An untyped string constant in the source; the switch compares it as a Service.\<close>

definition LFSAuthenticateService :: string where
  "LFSAuthenticateService = ''git-lfs-authenticate''"

definition Service_String :: "Service \<Rightarrow> string" where
  "Service_String s = s"

text \<open>\<^verbatim>\<open>strings.TrimPrefix\<close>: the string without the prefix when it starts with it, else the string.\<close>

definition TrimPrefix :: "string \<Rightarrow> string \<Rightarrow> string" where
  "TrimPrefix s prefix = (if take (length prefix) s = prefix then drop (length prefix) s else s)"

definition Name :: "Service \<Rightarrow> string" where
  "Name s = TrimPrefix (Service_String s) ''git-''"

section \<open>Errors\<close>

text \<open>
  Go error values as far as this file tells them apart: the sentinel \<^verbatim>\<open>os.ErrNotExist\<close>,
  the package's sentinel \<^verbatim>\<open>ErrInvalidRepo\<close>, an error that is only a message
  (\<^verbatim>\<open>errors.New\<close>, \<^verbatim>\<open>fmt.Errorf\<close> without \<^verbatim>\<open>%w\<close>), an \<^verbatim>\<open>*exec.ExitError\<close> with the
  text of its process state (what its \<^verbatim>\<open>Error()\<close> returns) and its \<^verbatim>\<open>Stderr\<close> bytes, and
  an error that wraps another one (\<^verbatim>\<open>*fs.PathError\<close>, \<^verbatim>\<open>*exec.Error\<close>, ...) with the text
  it adds. An error whose \<^verbatim>\<open>Is\<close> method answers for \<^verbatim>\<open>os.ErrNotExist\<close> (\<^verbatim>\<open>syscall.ENOENT\<close>)
  is the sentinel itself here.
\<close>

datatype error =
    ErrNotExist
  | ErrInvalidRepo
  | ErrorString string
  | ExitError string string
  | WrapError string error

text \<open>\<^verbatim>\<open>errors.Is\<close> follows the chain of wrapped errors; the target is a sentinel.\<close>

fun errors_Is :: "error \<Rightarrow> error \<Rightarrow> bool" where
  "errors_Is (WrapError m e) target = (WrapError m e = target \<or> errors_Is e target)"
| "errors_Is e target = (e = target)"

text \<open>\<^verbatim>\<open>errors.As(err, &exitErr)\<close>: the first \<^verbatim>\<open>*exec.ExitError\<close> of the chain, if any.\<close>

fun errors_As_ExitError :: "error \<Rightarrow> (string \<times> string) option" where
  "errors_As_ExitError (ExitError d stderr) = Some (d, stderr)"
| "errors_As_ExitError (WrapError m e) = errors_As_ExitError e"
| "errors_As_ExitError e = None"

section \<open>The request descriptor and the child process configuration\<close>

text \<open>
  \<^verbatim>\<open>exec.Cmd\<close>, with the fields this file sets. \<^verbatim>\<open>Args\<close> holds the command line,
  the command itself first.
\<close>

record Cmd =
  Path :: string
  Args :: "string list"
  Env :: "string list"
  Dir :: string

text \<open>Readers and writers are opaque handles; \<^verbatim>\<open>nil\<close> is \<open>None\<close>.\<close>

datatype Reader = Reader nat

datatype Writer = Writer nat

record ServiceCommand =
  Stdin :: "Reader option"
  Stdout :: "Writer option"
  Stderr :: "Writer option"
  Dir :: string
  Env :: "string list"
  Args :: "string list"
  CmdFunc :: "(Cmd \<Rightarrow> Cmd) option"

section \<open>The operating system\<close>

text \<open>
  What the calls into the operating system and the standard library answer during one
  invocation: the ambient environment, and for each call that can fail its error
  (\<open>None\<close> is \<^verbatim>\<open>nil\<close>). Every theorem below holds for every such record.
\<close>

record World =
  Environ :: "string list"
  StdinPipe :: "error option"
  StdoutPipe :: "error option"
  StderrPipe :: "error option"
  Start :: "error option"
  Copy_stdin :: "error option"
  Copy_stdout :: "error option"
  Copy_stderr :: "error option"
  Wait :: "error option"

datatype stream = STDIN | STDOUT | STDERR

text \<open>
  What an invocation does to the outside, in program order: a call of \<^verbatim>\<open>cmd.StdinPipe()\<close>,
  \<^verbatim>\<open>cmd.StdoutPipe()\<close> or \<^verbatim>\<open>cmd.StderrPipe()\<close>, the call of \<^verbatim>\<open>cmd.Start()\<close> with the
  configuration it is given, an \<^verbatim>\<open>io.Copy\<close> on a stream, the closing of a pipe, a call of
  \<^verbatim>\<open>log.Errorf\<close> with its format and argument, \<^verbatim>\<open>wg.Wait()\<close> and \<^verbatim>\<open>cmd.Wait()\<close>.
\<close>

datatype event =
    PipeOpen stream
  | ProcStart Cmd
  | IoCopy stream
  | PipeClose stream
  | LogErrorf string "error option"
  | WaitGroupWait
  | ProcWait

section \<open>gitServiceHandler (lines 59-174)\<close>

text \<open>\<^verbatim>\<open>exec.CommandContext(ctx, name)\<close> with no further argument.\<close>

definition CommandContext :: "string \<Rightarrow> Cmd" where
  "CommandContext name = \<lparr>Path = name, Args = [name], Env = [], Dir = []\<rparr>"

text \<open>Lines 61-81: the configuration before the hook sees it.\<close>

definition new_cmd :: "World \<Rightarrow> Service \<Rightarrow> ServiceCommand \<Rightarrow> Cmd" where
  "new_cmd w svc scmd =
    (let cmd = CommandContext ''git'';
         cmd = cmd\<lparr>Cmd.Dir := ServiceCommand.Dir scmd\<rparr>;
         cmd = cmd\<lparr>Cmd.Args := Cmd.Args cmd @
                 [''-c'', ''uploadpack.allowFilter=true'',
                  ''-c'', ''receive.advertisePushOptions=true'',
                  ''-c'', ''filter.lfs.required='', ''-c'', ''filter.lfs.smudge='',
                  ''-c'', ''filter.lfs.clean='',
                  Name svc]\<rparr>;
         cmd = (if length (ServiceCommand.Args scmd) > 0
                then cmd\<lparr>Cmd.Args := Cmd.Args cmd @ ServiceCommand.Args scmd\<rparr> else cmd);
         cmd = cmd\<lparr>Cmd.Args := Cmd.Args cmd @ [''.'']\<rparr>;
         cmd = cmd\<lparr>Cmd.Env := Environ w\<rparr>;
         cmd = (if length (ServiceCommand.Env scmd) > 0
                then cmd\<lparr>Cmd.Env := Cmd.Env cmd @ ServiceCommand.Env scmd\<rparr> else cmd)
     in cmd)"

text \<open>Lines 83-85: the hook, when there is one, works on the configuration.\<close>

definition call_CmdFunc :: "ServiceCommand \<Rightarrow> Cmd \<Rightarrow> Cmd" where
  "call_CmdFunc scmd cmd = (case CmdFunc scmd of None \<Rightarrow> cmd | Some f \<Rightarrow> f cmd)"

text \<open>
  The function's variables: the descriptor it was called with, the configuration, the
  variable \<^verbatim>\<open>err\<close> of line 88, and what it has done so far.
\<close>

record frame =
  scmd :: ServiceCommand
  cmd :: Cmd
  err :: "error option"
  trace :: "event list"

text \<open>A statement either returns from the function or goes on to the next one.\<close>

datatype step = Return "error option" frame | Continue frame

fun then_do :: "step \<Rightarrow> (frame \<Rightarrow> step) \<Rightarrow> step" where
  "then_do (Return r f) k = Return r f"
| "then_do (Continue f) k = k f"

definition enter :: "World \<Rightarrow> Service \<Rightarrow> ServiceCommand \<Rightarrow> step" where
  "enter w svc sc =
    Continue \<lparr>scmd = sc, cmd = call_CmdFunc sc (new_cmd w svc sc), err = None, trace = []\<rparr>"

text \<open>Lines 94-99.\<close>

definition stdin_pipe :: "World \<Rightarrow> frame \<Rightarrow> step" where
  "stdin_pipe w f =
    (if Stdin (scmd f) \<noteq> None then
       (let f = f\<lparr>err := StdinPipe w, trace := trace f @ [PipeOpen STDIN]\<rparr>
        in if err f \<noteq> None then Return (err f) f else Continue f)
     else Continue f)"

text \<open>Lines 101-106.\<close>

definition stdout_pipe :: "World \<Rightarrow> frame \<Rightarrow> step" where
  "stdout_pipe w f =
    (if Stdout (scmd f) \<noteq> None then
       (let f = f\<lparr>err := StdoutPipe w, trace := trace f @ [PipeOpen STDOUT]\<rparr>
        in if err f \<noteq> None then Return (err f) f else Continue f)
     else Continue f)"

text \<open>Lines 108-113.\<close>

definition stderr_pipe :: "World \<Rightarrow> frame \<Rightarrow> step" where
  "stderr_pipe w f =
    (if Stderr (scmd f) \<noteq> None then
       (let f = f\<lparr>err := StderrPipe w, trace := trace f @ [PipeOpen STDERR]\<rparr>
        in if err f \<noteq> None then Return (err f) f else Continue f)
     else Continue f)"

text \<open>
  Lines 115-120. The \<^verbatim>\<open>err\<close> of the \<^verbatim>\<open>if\<close> statement is a variable of its own: the
  one of line 88 keeps its value.
\<close>

definition start :: "World \<Rightarrow> frame \<Rightarrow> step" where
  "start w f =
    (let f = f\<lparr>trace := trace f @ [ProcStart (cmd f)]\<rparr>
     in case Start w of
          Some e \<Rightarrow> if errors_Is e ErrNotExist then Return (Some ErrInvalidRepo) f
                    else Return (Some e) f
        | None \<Rightarrow> Continue f)"

text \<open>
  Lines 124-132: the task that copies the caller's input to the process. It closes the
  pipe when it ends (the deferred call), whatever the copy returned. The tasks run
  concurrently in the source; the trace lists what each one does, in the order the
  source starts them.
\<close>

definition stdin_task :: "World \<Rightarrow> frame \<Rightarrow> step" where
  "stdin_task w f =
    (if Stdin (scmd f) \<noteq> None then
       Continue (f\<lparr>trace := trace f @ [IoCopy STDIN] @
          (case Copy_stdin w of
             Some e \<Rightarrow> [LogErrorf ''gitServiceHandler: failed to copy stdin: %v'' (Some e)]
           | None \<Rightarrow> []) @ [PipeClose STDIN]\<rparr>)
     else Continue f)"

text \<open>Lines 134-143.\<close>

definition stdout_task :: "World \<Rightarrow> frame \<Rightarrow> step" where
  "stdout_task w f =
    (if Stdout (scmd f) \<noteq> None then
       Continue (f\<lparr>trace := trace f @ [IoCopy STDOUT] @
          (case Copy_stdout w of
             Some e \<Rightarrow> [LogErrorf ''gitServiceHandler: failed to copy stdout: %v'' (Some e)]
           | None \<Rightarrow> [])\<rparr>)
     else Continue f)"

text \<open>
  Lines 145-154. The copy's error is bound to \<^verbatim>\<open>erro\<close>; the condition tests \<^verbatim>\<open>err\<close>,
  the variable of line 88, which the task reads before line 161 assigns it (the
  task ends before \<^verbatim>\<open>wg.Wait()\<close> returns).
\<close>

definition stderr_task :: "World \<Rightarrow> frame \<Rightarrow> step" where
  "stderr_task w f =
    (if Stderr (scmd f) \<noteq> None then
       Continue (f\<lparr>trace := trace f @ [IoCopy STDERR] @
          (let erro = Copy_stderr w
           in if err f \<noteq> None
              then [LogErrorf ''gitServiceHandler: failed to copy stderr: %v'' erro]
              else [])\<rparr>)
     else Continue f)"

text \<open>Line 159.\<close>

definition wg_wait :: "frame \<Rightarrow> step" where
  "wg_wait f = Continue (f\<lparr>trace := trace f @ [WaitGroupWait]\<rparr>)"

text \<open>\<^verbatim>\<open>fmt.Errorf("%s: %s", exitErr, exitErr.Stderr)\<close>.\<close>

definition Errorf_exit :: "string \<Rightarrow> string \<Rightarrow> error" where
  "Errorf_exit d stderr = ErrorString (d @ '': '' @ stderr)"

text \<open>Lines 161-173.\<close>

definition wait :: "World \<Rightarrow> frame \<Rightarrow> step" where
  "wait w f =
    (let f = f\<lparr>err := Wait w, trace := trace f @ [ProcWait]\<rparr>
     in case err f of
          Some e \<Rightarrow>
            if errors_Is e ErrNotExist then Return (Some ErrInvalidRepo) f
            else (case errors_As_ExitError e of
                    Some (d, stderr) \<Rightarrow>
                      if length stderr > 0 then Return (Some (Errorf_exit d stderr)) f
                      else Return (Some e) f
                  | None \<Rightarrow> Return (Some e) f)
        | None \<Rightarrow> Return None f)"

text \<open>The body, statement after statement.\<close>

definition gitServiceHandler_body :: "World \<Rightarrow> Service \<Rightarrow> ServiceCommand \<Rightarrow> step" where
  "gitServiceHandler_body w svc sc =
    then_do (then_do (then_do (then_do (then_do (then_do (then_do (then_do (then_do
      (enter w svc sc)
      (stdin_pipe w)) (stdout_pipe w)) (stderr_pipe w))
      (start w))
      (stdin_task w)) (stdout_task w)) (stderr_task w))
      wg_wait)
      (wait w)"

text \<open>
  A call gives the returned error and what was done. The body always returns
  (\<open>gitServiceHandler_body_returns\<close> below); the second case is never taken.
\<close>

fun returned :: "step \<Rightarrow> error option \<times> event list" where
  "returned (Return r f) = (r, trace f)"
| "returned (Continue f) = (None, trace f)"

fun final_frame :: "step \<Rightarrow> frame" where
  "final_frame (Return r f) = f"
| "final_frame (Continue f) = f"

definition gitServiceHandler :: "World \<Rightarrow> Service \<Rightarrow> ServiceCommand \<Rightarrow> error option \<times> event list" where
  "gitServiceHandler w svc sc = returned (gitServiceHandler_body w svc sc)"

section \<open>Service.Handler and the exported wrappers (lines 42-57, 189-202)\<close>

text \<open>
  \<^verbatim>\<open>type ServiceHandler func(ctx context.Context, cmd ServiceCommand) error\<close>: a call gives
  the returned error and what was done.
\<close>

type_synonym ServiceHandler = "World \<Rightarrow> ServiceCommand \<Rightarrow> error option \<times> event list"

text \<open>
  \<^verbatim>\<open>LFSTransfer\<close> and \<^verbatim>\<open>LFSAuthenticate\<close> are functions of the package that this file
  only calls: they are parameters here. The descriptor, \<^verbatim>\<open>cmd\<close> in the source, is \<open>sc\<close>.
\<close>

definition Handler ::
  "ServiceHandler \<Rightarrow> ServiceHandler \<Rightarrow> World \<Rightarrow> Service \<Rightarrow> ServiceCommand \<Rightarrow> error option \<times> event list"
  where
  "Handler LFSTransfer LFSAuthenticate w s sc =
    (if s = UploadPackService \<or> s = UploadArchiveService \<or> s = ReceivePackService
       then gitServiceHandler w s sc
     else if s = LFSTransferService then LFSTransfer w sc
     else if s = LFSAuthenticateService then LFSAuthenticate w sc
     else (Some (ErrorString (''unsupported service: '' @ Service_String s)), []))"

definition UploadPack :: ServiceHandler where
  "UploadPack w sc = gitServiceHandler w UploadPackService sc"

definition UploadArchive :: ServiceHandler where
  "UploadArchive w sc = gitServiceHandler w UploadArchiveService sc"

definition ReceivePack :: ServiceHandler where
  "ReceivePack w sc = gitServiceHandler w ReceivePackService sc"

section \<open>Reading a run\<close>

text \<open>Every pipe the descriptor asks for can be created.\<close>

definition pipes_ok :: "World \<Rightarrow> ServiceCommand \<Rightarrow> bool" where
  "pipes_ok w sc =
    ((Stdin sc \<noteq> None \<longrightarrow> StdinPipe w = None) \<and>
     (Stdout sc \<noteq> None \<longrightarrow> StdoutPipe w = None) \<and>
     (Stderr sc \<noteq> None \<longrightarrow> StderrPipe w = None))"

text \<open>The pipes opened when all of them can be created, in the order of the source.\<close>

definition pipe_events :: "ServiceCommand \<Rightarrow> event list" where
  "pipe_events sc =
    (if Stdin sc \<noteq> None then [PipeOpen STDIN] else []) @
    (if Stdout sc \<noteq> None then [PipeOpen STDOUT] else []) @
    (if Stderr sc \<noteq> None then [PipeOpen STDERR] else [])"

text \<open>The statements up to line 113, as one step.\<close>

definition pipes_stage :: "World \<Rightarrow> Service \<Rightarrow> ServiceCommand \<Rightarrow> step" where
  "pipes_stage w svc sc =
     then_do (then_do (then_do (enter w svc sc) (stdin_pipe w)) (stdout_pipe w)) (stderr_pipe w)"

text \<open>
  What the three copy tasks do once the process has started: the \<open>err\<close> of line 88 is
  \<^verbatim>\<open>nil\<close> there (\<open>body_started\<close> below), so the task of the error stream logs nothing.
\<close>

definition copy_events :: "World \<Rightarrow> ServiceCommand \<Rightarrow> event list" where
  "copy_events w sc =
    (if Stdin sc \<noteq> None then
       [IoCopy STDIN] @
       (case Copy_stdin w of
          Some e \<Rightarrow> [LogErrorf ''gitServiceHandler: failed to copy stdin: %v'' (Some e)]
        | None \<Rightarrow> []) @ [PipeClose STDIN]
     else []) @
    (if Stdout sc \<noteq> None then
       [IoCopy STDOUT] @
       (case Copy_stdout w of
          Some e \<Rightarrow> [LogErrorf ''gitServiceHandler: failed to copy stdout: %v'' (Some e)]
        | None \<Rightarrow> [])
     else []) @
    (if Stderr sc \<noteq> None then [IoCopy STDERR] else [])"

text \<open>The value lines 161-173 return for what \<^verbatim>\<open>cmd.Wait()\<close> answered.\<close>

definition wait_value :: "error option \<Rightarrow> error option" where
  "wait_value r =
    (case r of
       None \<Rightarrow> None
     | Some e \<Rightarrow>
         if errors_Is e ErrNotExist then Some ErrInvalidRepo
         else (case errors_As_ExitError e of
                 Some (d, stderr) \<Rightarrow> if stderr \<noteq> [] then Some (Errorf_exit d stderr) else Some e
               | None \<Rightarrow> Some e))"

text \<open>
  How a process reads its environment: an entry is \<^verbatim>\<open>KEY=value\<close>, and of several entries
  with one key the last one counts.
\<close>

definition env_key :: "string \<Rightarrow> string" where
  "env_key kv = takeWhile (\<lambda>c. c \<noteq> CHR ''='') kv"

definition lookup_env :: "string list \<Rightarrow> string \<Rightarrow> string option" where
  "lookup_env env k =
    (let kvs = filter (\<lambda>kv. env_key kv = k) env
     in if kvs = [] then None else Some (last kvs))"

section \<open>Sample inputs\<close>

text \<open>A system where every call succeeds, and a request that asks for the three streams.\<close>

definition quiet_world :: World where
  "quiet_world =
    \<lparr>Environ = [''PATH=/usr/bin'', ''HOME=/srv''],
     StdinPipe = None, StdoutPipe = None, StderrPipe = None, Start = None,
     Copy_stdin = None, Copy_stdout = None, Copy_stderr = None, Wait = None\<rparr>"

definition sample_request :: ServiceCommand where
  "sample_request =
    \<lparr>Stdin = Some (Reader 0), Stdout = Some (Writer 1), Stderr = Some (Writer 2),
     Dir = ''/repos/a.git'', Env = [''HOME=/tmp'', ''SOFT_SERVE_REPO_NAME=a''],
     Args = [''--stateless-rpc''], CmdFunc = None\<rparr>"

text \<open>The error of a working directory that is not there.\<close>

definition missing_dir :: error where
  "missing_dir = WrapError ''chdir /repos/gone.git'' ErrNotExist"

text \<open>Errors of a pipe that cannot be created and of a copy that breaks off.\<close>

definition too_many_files :: error where
  "too_many_files = WrapError ''pipe'' (ErrorString ''too many open files'')"

definition broken_pipe :: error where
  "broken_pipe = WrapError ''write |1'' (ErrorString ''broken pipe'')"

text \<open>A stand-in for the two LFS handlers: it does nothing and returns no error.\<close>

definition no_lfs :: ServiceHandler where
  "no_lfs w sc = (None, [])"

section \<open>The copy tasks as concurrent threads (lines 122-173)\<close>

text \<open>
  Once the process has started, the function and the tasks it starts with \<^verbatim>\<open>go\<close> run
  concurrently. A state holds the line the function is at, the variable \<^verbatim>\<open>err\<close> of line
  88 (the task of the error stream reads it), the counter of the wait group, where each
  task is, whether the input pipe has been closed, what has been logged and the value
  returned.
\<close>

datatype line = L125 | L135 | L146 | L159 | L161 | Returned

datatype task = NotStarted | Copying | Copied | Finished

record threads =
  at :: line
  err_var :: "error option"
  wg :: nat
  stdin_copier :: task
  stdout_copier :: task
  stderr_copier :: task
  stdin_closed :: bool
  logged :: "event list"
  value_returned :: "error option"

datatype thread = Function | StdinCopier | StdoutCopier | StderrCopier

text \<open>The state after a successful start: no pipe failed, so \<^verbatim>\<open>err\<close> is \<^verbatim>\<open>nil\<close>.\<close>

definition after_start :: threads where
  "after_start =
    \<lparr>at = L125, err_var = None, wg = 0, stdin_copier = NotStarted, stdout_copier = NotStarted,
     stderr_copier = NotStarted, stdin_closed = False, logged = [], value_returned = None\<rparr>"

text \<open>
  One step of one thread, \<open>None\<close> when the thread cannot move: the function at
  \<^verbatim>\<open>wg.Wait()\<close> while the counter is not zero, a task that was not started or has ended.
  A task takes two steps: \<^verbatim>\<open>io.Copy\<close> returns and its error, if the condition holds, is
  logged; then the deferred call runs (\<^verbatim>\<open>stdin.Close()\<close>, \<^verbatim>\<open>wg.Done()\<close>).
\<close>

fun thread_step :: "World \<Rightarrow> ServiceCommand \<Rightarrow> thread \<Rightarrow> threads \<Rightarrow> threads option" where
  "thread_step w sc Function s =
    (case at s of
       L125 \<Rightarrow> Some (if Stdin sc \<noteq> None then s\<lparr>at := L135, stdin_copier := Copying\<rparr>
                      else s\<lparr>at := L135\<rparr>)
     | L135 \<Rightarrow> Some (if Stdout sc \<noteq> None
                      then s\<lparr>at := L146, wg := wg s + 1, stdout_copier := Copying\<rparr>
                      else s\<lparr>at := L146\<rparr>)
     | L146 \<Rightarrow> Some (if Stderr sc \<noteq> None
                      then s\<lparr>at := L159, wg := wg s + 1, stderr_copier := Copying\<rparr>
                      else s\<lparr>at := L159\<rparr>)
     | L159 \<Rightarrow> if wg s = 0 then Some (s\<lparr>at := L161\<rparr>) else None
     | L161 \<Rightarrow> Some (s\<lparr>at := Returned, err_var := Wait w,
                         value_returned := wait_value (Wait w)\<rparr>)
     | Returned \<Rightarrow> None)"
| "thread_step w sc StdinCopier s =
    (case stdin_copier s of
       Copying \<Rightarrow> Some (s\<lparr>stdin_copier := Copied, logged := logged s @
          (case Copy_stdin w of
             Some e \<Rightarrow> [LogErrorf ''gitServiceHandler: failed to copy stdin: %v'' (Some e)]
           | None \<Rightarrow> [])\<rparr>)
     | Copied \<Rightarrow> Some (s\<lparr>stdin_copier := Finished, stdin_closed := True\<rparr>)
     | _ \<Rightarrow> None)"
| "thread_step w sc StdoutCopier s =
    (case stdout_copier s of
       Copying \<Rightarrow> Some (s\<lparr>stdout_copier := Copied, logged := logged s @
          (case Copy_stdout w of
             Some e \<Rightarrow> [LogErrorf ''gitServiceHandler: failed to copy stdout: %v'' (Some e)]
           | None \<Rightarrow> [])\<rparr>)
     | Copied \<Rightarrow> Some (s\<lparr>stdout_copier := Finished, wg := wg s - 1\<rparr>)
     | _ \<Rightarrow> None)"
| "thread_step w sc StderrCopier s =
    (case stderr_copier s of
       Copying \<Rightarrow> Some (s\<lparr>stderr_copier := Copied, logged := logged s @
          (let erro = Copy_stderr w
           in if err_var s \<noteq> None
              then [LogErrorf ''gitServiceHandler: failed to copy stderr: %v'' erro]
              else [])\<rparr>)
     | Copied \<Rightarrow> Some (s\<lparr>stderr_copier := Finished, wg := wg s - 1\<rparr>)
     | _ \<Rightarrow> None)"

text \<open>A schedule names the thread that moves next; it is a run when every step can be taken.\<close>

fun schedule :: "World \<Rightarrow> ServiceCommand \<Rightarrow> thread list \<Rightarrow> threads \<Rightarrow> threads option" where
  "schedule w sc [] s = Some s"
| "schedule w sc (t # ts) s =
    (case thread_step w sc t s of None \<Rightarrow> None | Some s' \<Rightarrow> schedule w sc ts s')"

text \<open>What holds of every state a run reaches.\<close>

definition running :: "task \<Rightarrow> nat" where
  "running t = (if t = Copying \<or> t = Copied then 1 else 0)"

definition threads_inv :: "ServiceCommand \<Rightarrow> threads \<Rightarrow> bool" where
  "threads_inv sc s =
    (running (stdout_copier s) + running (stderr_copier s) = wg s \<and>
     (stdin_copier s \<noteq> NotStarted) = (Stdin sc \<noteq> None \<and> at s \<noteq> L125) \<and>
     (stdout_copier s \<noteq> NotStarted) = (Stdout sc \<noteq> None \<and> at s \<noteq> L125 \<and> at s \<noteq> L135) \<and>
     (stderr_copier s \<noteq> NotStarted) =
        (Stderr sc \<noteq> None \<and> at s \<noteq> L125 \<and> at s \<noteq> L135 \<and> at s \<noteq> L146) \<and>
     (at s = L161 \<or> at s = Returned \<longrightarrow> wg s = 0) \<and>
     (at s \<noteq> Returned \<longrightarrow> err_var s = None) \<and>
     stdin_closed s = (stdin_copier s = Finished) \<and>
     (\<forall>a. LogErrorf ''gitServiceHandler: failed to copy stderr: %v'' a \<notin> set (logged s)))"

text \<open>
  The schedule in which the function is at \<^verbatim>\<open>return\<close> while the copy of the input is still
  going on, and the one that follows the order of the source.
\<close>

definition input_left_behind :: "ServiceCommand \<Rightarrow> thread list" where
  "input_left_behind sc =
    [Function, Function, Function] @
    (if Stdout sc \<noteq> None then [StdoutCopier, StdoutCopier] else []) @
    (if Stderr sc \<noteq> None then [StderrCopier, StderrCopier] else []) @
    [Function, Function]"

definition program_order :: "ServiceCommand \<Rightarrow> thread list" where
  "program_order sc =
    [Function] @ (if Stdin sc \<noteq> None then [StdinCopier, StdinCopier] else []) @
    [Function] @ (if Stdout sc \<noteq> None then [StdoutCopier, StdoutCopier] else []) @
    [Function] @ (if Stderr sc \<noteq> None then [StderrCopier, StderrCopier] else []) @
    [Function, Function]"

text \<open>The log entries among the events of a run.\<close>

fun is_LogErrorf :: "event \<Rightarrow> bool" where
  "is_LogErrorf (LogErrorf fmt a) = True"
| "is_LogErrorf e = False"

section \<open>The configuration in memory (lines 61-85)\<close>

text \<open>
  \<^verbatim>\<open>Env\<close> and \<^verbatim>\<open>Args\<close> are slices: a slice is a window on an array that other slices may
  share, so a write through one can show through another. Here the arrays live in a
  store; a slice names its array, where its window starts, its length and its capacity.
\<close>

type_synonym addr = nat

record slice =
  arr :: addr
  off :: nat
  len :: nat
  cap :: nat

record store =
  arrays :: "addr \<Rightarrow> string list"
  next_free :: addr

definition elems :: "store \<Rightarrow> slice \<Rightarrow> string list" where
  "elems st sl = take (len sl) (drop (off sl) (arrays st (arr sl)))"

text \<open>A slice of the store: its array exists and holds its window up to the capacity.\<close>

definition valid_slice :: "store \<Rightarrow> slice \<Rightarrow> bool" where
  "valid_slice st sl =
    (arr sl < next_free st \<and> len sl \<le> cap sl \<and> off sl + cap sl \<le> length (arrays st (arr sl)))"

text \<open>
  A new array that holds \<open>xs\<close>, with room for \<open>c\<close> elements if that is more: what a slice
  literal, \<^verbatim>\<open>make\<close> and a growing \<^verbatim>\<open>append\<close> do.
\<close>

definition alloc :: "store \<Rightarrow> string list \<Rightarrow> nat \<Rightarrow> slice \<times> store" where
  "alloc st xs c =
    (let n = length xs; c' = max n c; a = next_free st
     in (\<lparr>arr = a, off = 0, len = n, cap = c'\<rparr>,
         st\<lparr>arrays := (arrays st)(a := xs @ replicate (c' - n) []), next_free := Suc a\<rparr>))"

text \<open>
  \<^verbatim>\<open>append(sl, xs...)\<close>: within the capacity the elements are written into the slice's
  own array, after its window; beyond it a new array is made, of a capacity the runtime
  chooses (\<open>grow\<close>, a parameter: from the old capacity and the length needed).
\<close>

definition go_append :: "(nat \<Rightarrow> nat \<Rightarrow> nat) \<Rightarrow> store \<Rightarrow> slice \<Rightarrow> string list \<Rightarrow> slice \<times> store" where
  "go_append grow st sl xs =
    (if len sl + length xs \<le> cap sl then
       (sl\<lparr>len := len sl + length xs\<rparr>,
        st\<lparr>arrays := (arrays st)(arr sl :=
              (let a = arrays st (arr sl); i = off sl + len sl
               in take i a @ xs @ drop (i + length xs) a))\<rparr>)
     else alloc st (elems st sl @ xs) (grow (cap sl) (len sl + length xs)))"

text \<open>The configuration and the descriptor with their slices in the store.\<close>

record Cmd_mem =
  Path_c :: string
  Args_c :: slice
  Env_c :: slice
  Dir_c :: string

record ServiceCommand_mem =
  Stdin_s :: "Reader option"
  Stdout_s :: "Writer option"
  Stderr_s :: "Writer option"
  Dir_s :: string
  Env_s :: slice
  Args_s :: slice
  CmdFunc_s :: "(Cmd_mem \<times> store \<Rightarrow> Cmd_mem \<times> store) option"

text \<open>What they stand for when the slices are read.\<close>

definition read_cmd :: "Cmd_mem \<times> store \<Rightarrow> Cmd" where
  "read_cmd cs =
    \<lparr>Path = Path_c (fst cs), Args = elems (snd cs) (Args_c (fst cs)),
     Env = elems (snd cs) (Env_c (fst cs)), Dir = Dir_c (fst cs)\<rparr>"

definition read_scmd :: "ServiceCommand_mem \<Rightarrow> store \<Rightarrow> ServiceCommand" where
  "read_scmd sm st =
    \<lparr>Stdin = Stdin_s sm, Stdout = Stdout_s sm, Stderr = Stderr_s sm, Dir = Dir_s sm,
     Env = elems st (Env_s sm), Args = elems st (Args_s sm), CmdFunc = None\<rparr>"

text \<open>\<^verbatim>\<open>cmd.Args = append(cmd.Args, xs...)\<close> and \<^verbatim>\<open>cmd.Env = append(cmd.Env, xs...)\<close>.\<close>

definition append_Args :: "(nat \<Rightarrow> nat \<Rightarrow> nat) \<Rightarrow> string list \<Rightarrow> Cmd_mem \<times> store \<Rightarrow> Cmd_mem \<times> store" where
  "append_Args grow xs cs =
    (let (a, st) = go_append grow (snd cs) (Args_c (fst cs)) xs in ((fst cs)\<lparr>Args_c := a\<rparr>, st))"

definition append_Env :: "(nat \<Rightarrow> nat \<Rightarrow> nat) \<Rightarrow> string list \<Rightarrow> Cmd_mem \<times> store \<Rightarrow> Cmd_mem \<times> store" where
  "append_Env grow xs cs =
    (let (a, st) = go_append grow (snd cs) (Env_c (fst cs)) xs in ((fst cs)\<lparr>Env_c := a\<rparr>, st))"

text \<open>
  \<^verbatim>\<open>exec.CommandContext(ctx, name)\<close>: the command line is a new one-element slice, the
  environment is \<^verbatim>\<open>nil\<close>.
\<close>

definition CommandContext_mem :: "string \<Rightarrow> store \<Rightarrow> Cmd_mem \<times> store" where
  "CommandContext_mem name st =
    (let (a, st') = alloc st [name] 1
     in (\<lparr>Path_c = name, Args_c = a, Env_c = \<lparr>arr = 0, off = 0, len = 0, cap = 0\<rparr>, Dir_c = []\<rparr>, st'))"

text \<open>\<^verbatim>\<open>cmd.Env = os.Environ()\<close>: a copy of the environment in a new array.\<close>

definition Environ_mem :: "(nat \<Rightarrow> nat \<Rightarrow> nat) \<Rightarrow> World \<Rightarrow> Cmd_mem \<times> store \<Rightarrow> Cmd_mem \<times> store" where
  "Environ_mem grow w cs =
    (let (e, st) = alloc (snd cs) (Environ w) (grow 0 (length (Environ w)))
     in ((fst cs)\<lparr>Env_c := e\<rparr>, st))"

text \<open>Lines 61-81 in the store.\<close>

definition new_cmd_mem ::
  "(nat \<Rightarrow> nat \<Rightarrow> nat) \<Rightarrow> World \<Rightarrow> Service \<Rightarrow> ServiceCommand_mem \<Rightarrow> store \<Rightarrow> Cmd_mem \<times> store" where
  "new_cmd_mem grow w svc sm st =
    (let cs = CommandContext_mem ''git'' st;
         cs = ((fst cs)\<lparr>Dir_c := Dir_s sm\<rparr>, snd cs);
         cs = append_Args grow
                [''-c'', ''uploadpack.allowFilter=true'',
                 ''-c'', ''receive.advertisePushOptions=true'',
                 ''-c'', ''filter.lfs.required='', ''-c'', ''filter.lfs.smudge='',
                 ''-c'', ''filter.lfs.clean='',
                 Name svc] cs;
         cs = (if len (Args_s sm) > 0
               then append_Args grow (elems (snd cs) (Args_s sm)) cs else cs);
         cs = append_Args grow [''.''] cs;
         cs = Environ_mem grow w cs;
         cs = (if len (Env_s sm) > 0
               then append_Env grow (elems (snd cs) (Env_s sm)) cs else cs)
     in cs)"

text \<open>Lines 83-85 in the store: the hook gets the configuration and may write to memory.\<close>

definition call_CmdFunc_mem :: "ServiceCommand_mem \<Rightarrow> Cmd_mem \<times> store \<Rightarrow> Cmd_mem \<times> store" where
  "call_CmdFunc_mem sm cs = (case CmdFunc_s sm of None \<Rightarrow> cs | Some f \<Rightarrow> f cs)"

text \<open>
  A hook that keeps to the configuration it is given: of the arrays that exist when it
  is called, it writes to none but those of the configuration's two slices.
\<close>

definition hook_confined :: "(Cmd_mem \<times> store \<Rightarrow> Cmd_mem \<times> store) \<Rightarrow> bool" where
  "hook_confined f =
    (\<forall>c st a. a < next_free st \<and> a \<noteq> arr (Args_c c) \<and> a \<noteq> arr (Env_c c) \<longrightarrow>
       arrays (snd (f (c, st))) a = arrays st a)"

text \<open>
  Where the configuration stands with respect to the arrays that existed at the call
  (those below \<open>n0\<close>, with the contents \<open>old\<close>): they are as they were, and the command line
  is a slice of a newer array.
\<close>

definition built_apart :: "addr \<Rightarrow> (addr \<Rightarrow> string list) \<Rightarrow> Cmd_mem \<times> store \<Rightarrow> bool" where
  "built_apart n0 old cs =
    (n0 \<le> arr (Args_c (fst cs)) \<and> valid_slice (snd cs) (Args_c (fst cs)) \<and>
     (\<forall>a < n0. arrays (snd cs) a = old a))"

text \<open>The same for the environment, once \<^verbatim>\<open>os.Environ()\<close> has made it: a slice of a newer
  array, and not the array of the command line.\<close>

definition env_apart :: "addr \<Rightarrow> Cmd_mem \<times> store \<Rightarrow> bool" where
  "env_apart n0 cs =
    (n0 \<le> arr (Env_c (fst cs)) \<and> valid_slice (snd cs) (Env_c (fst cs)) \<and>
     arr (Env_c (fst cs)) \<noteq> arr (Args_c (fst cs)))"

text \<open>
  A descriptor in memory with one extra argument and two entries, the capacity the
  runtime is taken to choose, and a hook that adds an argument.
\<close>

definition sample_store :: store where
  "sample_store =
    \<lparr>arrays = (\<lambda>a. if a = 0 then [''--stateless-rpc'', [], []]
                    else if a = 1 then [''HOME=/tmp'', ''SOFT_SERVE_REPO_NAME=a''] else []),
     next_free = 2\<rparr>"

definition doubling :: "nat \<Rightarrow> nat \<Rightarrow> nat" where
  "doubling c n = 2 * n"

definition sample_hook :: "Cmd_mem \<times> store \<Rightarrow> Cmd_mem \<times> store" where
  "sample_hook cs = append_Args doubling [''--timeout=5''] cs"

definition sample_request_mem :: ServiceCommand_mem where
  "sample_request_mem =
    \<lparr>Stdin_s = Some (Reader 0), Stdout_s = Some (Writer 1), Stderr_s = Some (Writer 2),
     Dir_s = ''/repos/a.git'',
     Env_s = \<lparr>arr = 1, off = 0, len = 2, cap = 2\<rparr>,
     Args_s = \<lparr>arr = 0, off = 0, len = 1, cap = 3\<rparr>,
     CmdFunc_s = Some sample_hook\<rparr>"

section \<open>Properties\<close>

subsection \<open>The paths through gitServiceHandler\<close>

lemma body_from_pipes:
  "gitServiceHandler_body w svc sc =
    then_do (then_do (then_do (then_do (then_do (then_do (pipes_stage w svc sc)
      (start w)) (stdin_task w)) (stdout_task w)) (stderr_task w)) wg_wait) (wait w)"
  by (simp add: gitServiceHandler_body_def pipes_stage_def)

lemma pipes_stage_ok:
  "pipes_ok w sc \<Longrightarrow>
   pipes_stage w svc sc =
   Continue \<lparr>scmd = sc, cmd = call_CmdFunc sc (new_cmd w svc sc), err = None, trace = pipe_events sc\<rparr>"
  by (simp add: pipes_stage_def pipes_ok_def enter_def stdin_pipe_def stdout_pipe_def stderr_pipe_def pipe_events_def Let_def)

lemma pipes_stage_stdin_fails:
  "Stdin sc \<noteq> None \<Longrightarrow> StdinPipe w = Some e \<Longrightarrow>
   pipes_stage w svc sc =
   Return (Some e) \<lparr>scmd = sc, cmd = call_CmdFunc sc (new_cmd w svc sc), err = Some e, trace = [PipeOpen STDIN]\<rparr>"
  by (simp add: pipes_stage_def enter_def stdin_pipe_def Let_def)

lemma pipes_stage_stdout_fails:
  "Stdin sc \<noteq> None \<longrightarrow> StdinPipe w = None \<Longrightarrow> Stdout sc \<noteq> None \<Longrightarrow> StdoutPipe w = Some e \<Longrightarrow>
   pipes_stage w svc sc =
   Return (Some e) \<lparr>scmd = sc, cmd = call_CmdFunc sc (new_cmd w svc sc), err = Some e,
     trace = (if Stdin sc \<noteq> None then [PipeOpen STDIN] else []) @ [PipeOpen STDOUT]\<rparr>"
  by (simp add: pipes_stage_def enter_def stdin_pipe_def stdout_pipe_def Let_def)

lemma pipes_stage_stderr_fails:
  "Stdin sc \<noteq> None \<longrightarrow> StdinPipe w = None \<Longrightarrow> Stdout sc \<noteq> None \<longrightarrow> StdoutPipe w = None \<Longrightarrow>
   Stderr sc \<noteq> None \<Longrightarrow> StderrPipe w = Some e \<Longrightarrow>
   pipes_stage w svc sc =
   Return (Some e) \<lparr>scmd = sc, cmd = call_CmdFunc sc (new_cmd w svc sc), err = Some e,
     trace = (if Stdin sc \<noteq> None then [PipeOpen STDIN] else []) @
             (if Stdout sc \<noteq> None then [PipeOpen STDOUT] else []) @ [PipeOpen STDERR]\<rparr>"
  by (simp add: pipes_stage_def enter_def stdin_pipe_def stdout_pipe_def stderr_pipe_def Let_def)

lemma body_start_fails:
  "pipes_ok w sc \<Longrightarrow> Start w = Some e \<Longrightarrow>
   gitServiceHandler_body w svc sc =
   Return (if errors_Is e ErrNotExist then Some ErrInvalidRepo else Some e)
     \<lparr>scmd = sc, cmd = call_CmdFunc sc (new_cmd w svc sc), err = None,
      trace = pipe_events sc @ [ProcStart (call_CmdFunc sc (new_cmd w svc sc))]\<rparr>"
  by (simp add: body_from_pipes pipes_stage_ok start_def Let_def)

lemma body_started:
  "pipes_ok w sc \<Longrightarrow> Start w = None \<Longrightarrow>
   gitServiceHandler_body w svc sc =
   wait w \<lparr>scmd = sc, cmd = call_CmdFunc sc (new_cmd w svc sc), err = None,
      trace = pipe_events sc @ [ProcStart (call_CmdFunc sc (new_cmd w svc sc))] @
              copy_events w sc @ [WaitGroupWait]\<rparr>"
  by (simp add: body_from_pipes pipes_stage_ok start_def Let_def stdin_task_def stdout_task_def stderr_task_def wg_wait_def copy_events_def)

lemma wait_returns:
  "wait w f = Return (wait_value (Wait w)) (f\<lparr>err := Wait w, trace := trace f @ [ProcWait]\<rparr>)"
  by (simp add: wait_def wait_value_def Let_def split: option.splits)

lemma body_waited:
  "pipes_ok w sc \<Longrightarrow> Start w = None \<Longrightarrow>
   gitServiceHandler_body w svc sc =
   Return (wait_value (Wait w))
     \<lparr>scmd = sc, cmd = call_CmdFunc sc (new_cmd w svc sc), err = Wait w,
      trace = pipe_events sc @ [ProcStart (call_CmdFunc sc (new_cmd w svc sc))] @
              copy_events w sc @ [WaitGroupWait, ProcWait]\<rparr>"
  by (simp add: body_started wait_returns)

lemma body_stdin_pipe_fails:
  "Stdin sc \<noteq> None \<Longrightarrow> StdinPipe w = Some e \<Longrightarrow>
   gitServiceHandler_body w svc sc =
   Return (Some e) \<lparr>scmd = sc, cmd = call_CmdFunc sc (new_cmd w svc sc), err = Some e, trace = [PipeOpen STDIN]\<rparr>"
  by (simp add: body_from_pipes pipes_stage_stdin_fails)

lemma body_stdout_pipe_fails:
  "Stdin sc \<noteq> None \<longrightarrow> StdinPipe w = None \<Longrightarrow> Stdout sc \<noteq> None \<Longrightarrow> StdoutPipe w = Some e \<Longrightarrow>
   gitServiceHandler_body w svc sc =
   Return (Some e) \<lparr>scmd = sc, cmd = call_CmdFunc sc (new_cmd w svc sc), err = Some e,
     trace = (if Stdin sc \<noteq> None then [PipeOpen STDIN] else []) @ [PipeOpen STDOUT]\<rparr>"
  by (simp add: body_from_pipes pipes_stage_stdout_fails)

lemma body_stderr_pipe_fails:
  "Stdin sc \<noteq> None \<longrightarrow> StdinPipe w = None \<Longrightarrow> Stdout sc \<noteq> None \<longrightarrow> StdoutPipe w = None \<Longrightarrow>
   Stderr sc \<noteq> None \<Longrightarrow> StderrPipe w = Some e \<Longrightarrow>
   gitServiceHandler_body w svc sc =
   Return (Some e) \<lparr>scmd = sc, cmd = call_CmdFunc sc (new_cmd w svc sc), err = Some e,
     trace = (if Stdin sc \<noteq> None then [PipeOpen STDIN] else []) @
             (if Stdout sc \<noteq> None then [PipeOpen STDOUT] else []) @ [PipeOpen STDERR]\<rparr>"
  by (simp add: body_from_pipes pipes_stage_stderr_fails)

text \<open>The paths through the function.\<close>

lemma run_cases:
  obtains
    (stdin_pipe_fails) e where "Stdin sc \<noteq> None" "StdinPipe w = Some e"
  | (stdout_pipe_fails) e where "Stdin sc \<noteq> None \<longrightarrow> StdinPipe w = None"
      "Stdout sc \<noteq> None" "StdoutPipe w = Some e"
  | (stderr_pipe_fails) e where "Stdin sc \<noteq> None \<longrightarrow> StdinPipe w = None"
      "Stdout sc \<noteq> None \<longrightarrow> StdoutPipe w = None" "Stderr sc \<noteq> None" "StderrPipe w = Some e"
  | (start_fails) e where "pipes_ok w sc" "Start w = Some e"
  | (started) "pipes_ok w sc" "Start w = None"
proof -
  have "(Stdin sc \<noteq> None \<and> StdinPipe w \<noteq> None) \<or>
        ((Stdin sc \<noteq> None \<longrightarrow> StdinPipe w = None) \<and> Stdout sc \<noteq> None \<and> StdoutPipe w \<noteq> None) \<or>
        ((Stdin sc \<noteq> None \<longrightarrow> StdinPipe w = None) \<and> (Stdout sc \<noteq> None \<longrightarrow> StdoutPipe w = None) \<and>
           Stderr sc \<noteq> None \<and> StderrPipe w \<noteq> None) \<or>
        pipes_ok w sc"
    unfolding pipes_ok_def by auto
  then show thesis
    using that by (cases "Start w") blast+
qed

lemma gitServiceHandler_body_returns:
  "\<exists>r f. gitServiceHandler_body w svc sc = Return r f"
proof (cases rule: run_cases [of sc w])
  case (stdin_pipe_fails e)
  then show ?thesis by (simp add: body_stdin_pipe_fails)
next
  case (stdout_pipe_fails e)
  then show ?thesis by (simp add: body_stdout_pipe_fails)
next
  case (stderr_pipe_fails e)
  then show ?thesis by (simp add: body_stderr_pipe_fails)
next
  case (start_fails e)
  then show ?thesis by (simp add: body_start_fails)
next
  case started
  then show ?thesis by (simp add: body_waited)
qed

lemma ProcStart_notin_pipe_events: "ProcStart c \<notin> set (pipe_events sc)"
  by (simp add: pipe_events_def)

lemma ProcStart_notin_copy_events: "ProcStart c \<notin> set (copy_events w sc)"
  by (simp add: copy_events_def split: option.splits)

lemma started_cmd:
  "ProcStart c \<in> set (snd (gitServiceHandler w svc sc)) \<Longrightarrow> c = call_CmdFunc sc (new_cmd w svc sc)"
proof (cases rule: run_cases [of sc w])
  case (stdin_pipe_fails e)
  then show "ProcStart c \<in> set (snd (gitServiceHandler w svc sc)) \<Longrightarrow> ?thesis"
    by (simp add: gitServiceHandler_def body_stdin_pipe_fails)
next
  case (stdout_pipe_fails e)
  then show "ProcStart c \<in> set (snd (gitServiceHandler w svc sc)) \<Longrightarrow> ?thesis"
    by (simp add: gitServiceHandler_def body_stdout_pipe_fails split: if_splits)
next
  case (stderr_pipe_fails e)
  then show "ProcStart c \<in> set (snd (gitServiceHandler w svc sc)) \<Longrightarrow> ?thesis"
    by (simp add: gitServiceHandler_def body_stderr_pipe_fails split: if_splits)
next
  case (start_fails e)
  then show "ProcStart c \<in> set (snd (gitServiceHandler w svc sc)) \<Longrightarrow> ?thesis"
    by (simp add: gitServiceHandler_def body_start_fails ProcStart_notin_pipe_events)
next
  case started
  then show "ProcStart c \<in> set (snd (gitServiceHandler w svc sc)) \<Longrightarrow> ?thesis"
    by (simp add: gitServiceHandler_def body_waited ProcStart_notin_pipe_events ProcStart_notin_copy_events)
qed

subsection \<open>The configuration of the child process\<close>

lemma Name_values:
  "Name UploadPackService = ''upload-pack''"
  "Name UploadArchiveService = ''upload-archive''"
  "Name ReceivePackService = ''receive-pack''"
  by (simp_all add: Name_def TrimPrefix_def Service_String_def UploadPackService_def
      UploadArchiveService_def ReceivePackService_def)

lemma new_cmd_Args:
  "Cmd.Args (new_cmd w svc sc) =
     [''git'', ''-c'', ''uploadpack.allowFilter=true'', ''-c'', ''receive.advertisePushOptions=true'',
      ''-c'', ''filter.lfs.required='', ''-c'', ''filter.lfs.smudge='', ''-c'', ''filter.lfs.clean='']
     @ [Name svc] @ ServiceCommand.Args sc @ [''.'']"
  by (simp add: new_cmd_def CommandContext_def Let_def)

lemma new_cmd_Env: "Cmd.Env (new_cmd w svc sc) = Environ w @ ServiceCommand.Env sc"
  by (simp add: new_cmd_def CommandContext_def Let_def)

lemma started_when_pipes_ok:
  "pipes_ok w sc \<Longrightarrow> ProcStart (call_CmdFunc sc (new_cmd w svc sc)) \<in> set (snd (gitServiceHandler w svc sc))"
  by (cases "Start w") (simp_all add: gitServiceHandler_def body_start_fails body_waited)

text \<open>
  Claim C1. For each of the three services run through the git binary, the command line
  the handler builds is the command name \<^verbatim>\<open>git\<close>, then the five fixed \<^verbatim>\<open>-c\<close> flags in
  their order, then the service's name without its \<^verbatim>\<open>git-\<close> prefix, then the caller's extra
  arguments in order, then \<^verbatim>\<open>.\<close> last. The process is started with this configuration
  after the hook, when there is one, has worked on it, and with this very configuration
  when there is none.
\<close>

theorem gitServiceHandler_argument_order:
  "svc \<in> {UploadPackService, UploadArchiveService, ReceivePackService} \<Longrightarrow>
   Cmd.Args (new_cmd w svc sc) =
     [''git'', ''-c'', ''uploadpack.allowFilter=true'', ''-c'', ''receive.advertisePushOptions=true'',
      ''-c'', ''filter.lfs.required='', ''-c'', ''filter.lfs.smudge='', ''-c'', ''filter.lfs.clean='']
     @ [Name svc] @ ServiceCommand.Args sc @ [''.''] \<and>
   Service_String svc = ''git-'' @ Name svc \<and>
   Name UploadPackService = ''upload-pack'' \<and>
   Name UploadArchiveService = ''upload-archive'' \<and>
   Name ReceivePackService = ''receive-pack'' \<and>
   (\<forall>c. ProcStart c \<in> set (snd (gitServiceHandler w svc sc)) \<longrightarrow>
        c = call_CmdFunc sc (new_cmd w svc sc)) \<and>
   (pipes_ok w sc \<longrightarrow>
      ProcStart (call_CmdFunc sc (new_cmd w svc sc)) \<in> set (snd (gitServiceHandler w svc sc))) \<and>
   (CmdFunc sc = None \<longrightarrow> call_CmdFunc sc (new_cmd w svc sc) = new_cmd w svc sc)"
proof -
  assume svc: "svc \<in> {UploadPackService, UploadArchiveService, ReceivePackService}"
  have name: "Service_String svc = ''git-'' @ Name svc"
    using svc Name_values
    by (auto simp: Service_String_def UploadPackService_def UploadArchiveService_def
        ReceivePackService_def)
  show ?thesis
    using name started_cmd [of _ w svc sc] started_when_pipes_ok [of w sc svc]
    by (simp add: new_cmd_Args Name_values call_CmdFunc_def)
qed

theorem gitServiceHandler_argument_order_witness:
  "Cmd.Args (new_cmd quiet_world UploadPackService sample_request) =
     [''git'', ''-c'', ''uploadpack.allowFilter=true'', ''-c'', ''receive.advertisePushOptions=true'',
      ''-c'', ''filter.lfs.required='', ''-c'', ''filter.lfs.smudge='', ''-c'', ''filter.lfs.clean='',
      ''upload-pack'', ''--stateless-rpc'', ''.''] \<and>
   ProcStart (new_cmd quiet_world UploadPackService sample_request)
     \<in> set (snd (gitServiceHandler quiet_world UploadPackService sample_request))"
proof -
  have svc: "UploadPackService \<in> {UploadPackService, UploadArchiveService, ReceivePackService}"
    by simp
  have ok: "pipes_ok quiet_world sample_request"
    by (simp add: pipes_ok_def quiet_world_def sample_request_def)
  have hook: "CmdFunc sample_request = None"
    by (simp add: sample_request_def)
  note th = gitServiceHandler_argument_order [OF svc, of quiet_world sample_request]
  have args: "Cmd.Args (new_cmd quiet_world UploadPackService sample_request) =
     [''git'', ''-c'', ''uploadpack.allowFilter=true'', ''-c'', ''receive.advertisePushOptions=true'',
      ''-c'', ''filter.lfs.required='', ''-c'', ''filter.lfs.smudge='', ''-c'', ''filter.lfs.clean='',
      ''upload-pack'', ''--stateless-rpc'', ''.'']"
    using th by (simp add: sample_request_def)
  have same: "call_CmdFunc sample_request (new_cmd quiet_world UploadPackService sample_request) =
      new_cmd quiet_world UploadPackService sample_request"
    using th hook by blast
  have "ProcStart (call_CmdFunc sample_request (new_cmd quiet_world UploadPackService sample_request))
      \<in> set (snd (gitServiceHandler quiet_world UploadPackService sample_request))"
    using th ok by blast
  with same args show ?thesis by simp
qed

subsection \<open>How failures are classified\<close>

lemma returned_value_start_fails:
  "pipes_ok w sc \<Longrightarrow> Start w = Some e \<Longrightarrow>
   fst (gitServiceHandler w svc sc) = (if errors_Is e ErrNotExist then Some ErrInvalidRepo else Some e)"
  by (simp add: gitServiceHandler_def body_start_fails)

lemma returned_value_waited:
  "pipes_ok w sc \<Longrightarrow> Start w = None \<Longrightarrow>
   fst (gitServiceHandler w svc sc) = wait_value (Wait w)"
  by (simp add: gitServiceHandler_def body_waited)

text \<open>
  Claim C2. When the pipes asked for have been created and starting the process fails
  with an error that is \<^verbatim>\<open>os.ErrNotExist\<close>, the handler returns \<^verbatim>\<open>ErrInvalidRepo\<close>; so it
  does when the process has started and waiting for it fails with such an error.
\<close>

theorem not_exist_is_ErrInvalidRepo:
  "pipes_ok w sc \<Longrightarrow> errors_Is e ErrNotExist \<Longrightarrow>
   (Start w = Some e \<longrightarrow> fst (gitServiceHandler w svc sc) = Some ErrInvalidRepo) \<and>
   (Start w = None \<and> Wait w = Some e \<longrightarrow> fst (gitServiceHandler w svc sc) = Some ErrInvalidRepo)"
  by (simp add: returned_value_start_fails returned_value_waited wait_value_def)

theorem not_exist_is_ErrInvalidRepo_witness:
  "fst (gitServiceHandler (quiet_world\<lparr>Start := Some missing_dir\<rparr>) UploadPackService sample_request)
     = Some ErrInvalidRepo \<and>
   fst (gitServiceHandler (quiet_world\<lparr>Wait := Some missing_dir\<rparr>) ReceivePackService sample_request)
     = Some ErrInvalidRepo"
proof -
  have is_ne: "errors_Is missing_dir ErrNotExist"
    by (simp add: missing_dir_def)
  have ok1: "pipes_ok (quiet_world\<lparr>Start := Some missing_dir\<rparr>) sample_request"
    by (simp add: pipes_ok_def quiet_world_def)
  have ok2: "pipes_ok (quiet_world\<lparr>Wait := Some missing_dir\<rparr>) sample_request"
    by (simp add: pipes_ok_def quiet_world_def)
  have s1: "Start (quiet_world\<lparr>Start := Some missing_dir\<rparr>) = Some missing_dir"
    by simp
  have s2: "Start (quiet_world\<lparr>Wait := Some missing_dir\<rparr>) = None \<and>
            Wait (quiet_world\<lparr>Wait := Some missing_dir\<rparr>) = Some missing_dir"
    by (simp add: quiet_world_def)
  from not_exist_is_ErrInvalidRepo [OF ok1 is_ne, of UploadPackService] s1
  have a: "fst (gitServiceHandler (quiet_world\<lparr>Start := Some missing_dir\<rparr>) UploadPackService
      sample_request) = Some ErrInvalidRepo"
    by blast
  from not_exist_is_ErrInvalidRepo [OF ok2 is_ne, of ReceivePackService] s2
  have b: "fst (gitServiceHandler (quiet_world\<lparr>Wait := Some missing_dir\<rparr>) ReceivePackService
      sample_request) = Some ErrInvalidRepo"
    by blast
  from a b show ?thesis by simp
qed

lemma As_ExitError_not_ErrNotExist:
  "errors_As_ExitError e = Some x \<Longrightarrow> \<not> errors_Is e ErrNotExist"
  by (induction e) auto

text \<open>
  Claim C4. Once the process has started, the handler returns no error when waiting for
  it reports none; when waiting reports an exit error, the handler returns an error
  whose text is the exit description, a colon and a space, and the bytes of the exit
  error's \<^verbatim>\<open>Stderr\<close> field if that field is not empty, and the exit error as it is
  otherwise.
\<close>

theorem exit_status_decides:
  "pipes_ok w sc \<Longrightarrow> Start w = None \<Longrightarrow>
   (Wait w = None \<longrightarrow> fst (gitServiceHandler w svc sc) = None) \<and>
   (\<forall>e d stderr. Wait w = Some e \<and> errors_As_ExitError e = Some (d, stderr) \<longrightarrow>
      fst (gitServiceHandler w svc sc) =
        (if stderr \<noteq> [] then Some (ErrorString (d @ '': '' @ stderr)) else Some e)) \<and>
   (\<forall>d stderr. Wait w = Some (ExitError d stderr) \<longrightarrow>
      fst (gitServiceHandler w svc sc) =
        (if stderr \<noteq> [] then Some (ErrorString (d @ '': '' @ stderr)) else Some (ExitError d stderr)))"
proof -
  assume ok: "pipes_ok w sc" and st: "Start w = None"
  have v: "fst (gitServiceHandler w svc sc) = wait_value (Wait w)"
    using ok st by (rule returned_value_waited)
  have a: "Wait w = None \<longrightarrow> fst (gitServiceHandler w svc sc) = None"
    by (simp add: v wait_value_def)
  have b: "\<forall>e d stderr. Wait w = Some e \<and> errors_As_ExitError e = Some (d, stderr) \<longrightarrow>
      fst (gitServiceHandler w svc sc) =
        (if stderr \<noteq> [] then Some (ErrorString (d @ '': '' @ stderr)) else Some e)"
    by (auto simp: v wait_value_def Errorf_exit_def dest: As_ExitError_not_ErrNotExist)
  have c: "\<forall>d stderr. Wait w = Some (ExitError d stderr) \<longrightarrow>
      fst (gitServiceHandler w svc sc) =
        (if stderr \<noteq> [] then Some (ErrorString (d @ '': '' @ stderr)) else Some (ExitError d stderr))"
    using b by simp
  from a b c show ?thesis by blast
qed

theorem exit_status_decides_witness:
  "fst (gitServiceHandler (quiet_world\<lparr>Wait := Some (ExitError ''exit status 128'' ''fatal: bad object'')\<rparr>)
        UploadPackService sample_request)
     = Some (ErrorString ''exit status 128: fatal: bad object'') \<and>
   fst (gitServiceHandler (quiet_world\<lparr>Wait := Some (ExitError ''exit status 1'' [])\<rparr>)
        UploadPackService sample_request)
     = Some (ExitError ''exit status 1'' []) \<and>
   fst (gitServiceHandler quiet_world UploadPackService sample_request) = None"
proof -
  have ok: "pipes_ok (quiet_world\<lparr>Wait := r\<rparr>) sample_request" for r
    by (simp add: pipes_ok_def quiet_world_def)
  have st: "Start (quiet_world\<lparr>Wait := r\<rparr>) = None" for r
    by (simp add: quiet_world_def)
  have q: "quiet_world\<lparr>Wait := None\<rparr> = quiet_world"
    by (simp add: quiet_world_def)
  from exit_status_decides [OF ok st, of "Some (ExitError ''exit status 128'' ''fatal: bad object'')" UploadPackService]
  have a: "fst (gitServiceHandler (quiet_world\<lparr>Wait := Some (ExitError ''exit status 128'' ''fatal: bad object'')\<rparr>)
        UploadPackService sample_request)
     = Some (ErrorString ''exit status 128: fatal: bad object'')"
    by simp
  from exit_status_decides [OF ok st, of "Some (ExitError ''exit status 1'' [])" UploadPackService]
  have b: "fst (gitServiceHandler (quiet_world\<lparr>Wait := Some (ExitError ''exit status 1'' [])\<rparr>)
        UploadPackService sample_request)
     = Some (ExitError ''exit status 1'' [])"
    by simp
  have wq: "Wait quiet_world = None"
    by (simp add: quiet_world_def)
  from exit_status_decides [OF ok st, of None UploadPackService] wq
  have c: "fst (gitServiceHandler quiet_world UploadPackService sample_request) = None"
    by (simp add: q)
  from a b c show ?thesis by simp
qed

subsection \<open>What a run does, path by path\<close>

lemma PipeOpen_pipe_events:
  "PipeOpen STDIN \<in> set (pipe_events sc) \<longleftrightarrow> Stdin sc \<noteq> None"
  "PipeOpen STDOUT \<in> set (pipe_events sc) \<longleftrightarrow> Stdout sc \<noteq> None"
  "PipeOpen STDERR \<in> set (pipe_events sc) \<longleftrightarrow> Stderr sc \<noteq> None"
  by (simp_all add: pipe_events_def)

lemma PipeOpen_notin_copy_events: "PipeOpen st \<notin> set (copy_events w sc)"
  by (simp add: copy_events_def split: option.splits)

lemma trace_cases:
  "snd (gitServiceHandler w svc sc) =
    (if Stdin sc \<noteq> None \<and> StdinPipe w \<noteq> None then [PipeOpen STDIN]
     else if Stdout sc \<noteq> None \<and> StdoutPipe w \<noteq> None
       then (if Stdin sc \<noteq> None then [PipeOpen STDIN] else []) @ [PipeOpen STDOUT]
     else if Stderr sc \<noteq> None \<and> StderrPipe w \<noteq> None
       then (if Stdin sc \<noteq> None then [PipeOpen STDIN] else []) @
            (if Stdout sc \<noteq> None then [PipeOpen STDOUT] else []) @ [PipeOpen STDERR]
     else pipe_events sc @ [ProcStart (call_CmdFunc sc (new_cmd w svc sc))] @
          (if Start w = None then copy_events w sc @ [WaitGroupWait, ProcWait] else []))"
proof (cases rule: run_cases [of sc w])
  case (stdin_pipe_fails e)
  then show ?thesis by (simp add: gitServiceHandler_def body_stdin_pipe_fails)
next
  case (stdout_pipe_fails e)
  then show ?thesis by (auto simp: gitServiceHandler_def body_stdout_pipe_fails)
next
  case (stderr_pipe_fails e)
  then show ?thesis by (auto simp: gitServiceHandler_def body_stderr_pipe_fails)
next
  case (start_fails e)
  then show ?thesis by (auto simp: gitServiceHandler_def body_start_fails pipes_ok_def)
next
  case started
  then show ?thesis by (auto simp: gitServiceHandler_def body_waited pipes_ok_def)
qed

text \<open>
  Claim C6. The handler asks for the input pipe exactly when the descriptor has an input
  source, for the output pipe exactly when it has an output sink and the input pipe did
  not fail, and for the error pipe exactly when it has an error sink and neither earlier
  pipe failed. When a pipe that was asked for cannot be created, the handler returns
  that error at once: the call ends with that request, and the process is started
  exactly when every pipe asked for was created.
\<close>

theorem pipes_as_requested:
  "(PipeOpen STDIN \<in> set (snd (gitServiceHandler w svc sc)) \<longleftrightarrow> Stdin sc \<noteq> None) \<and>
   (PipeOpen STDOUT \<in> set (snd (gitServiceHandler w svc sc)) \<longleftrightarrow>
      Stdout sc \<noteq> None \<and> \<not> (Stdin sc \<noteq> None \<and> StdinPipe w \<noteq> None)) \<and>
   (PipeOpen STDERR \<in> set (snd (gitServiceHandler w svc sc)) \<longleftrightarrow>
      Stderr sc \<noteq> None \<and> \<not> (Stdin sc \<noteq> None \<and> StdinPipe w \<noteq> None) \<and>
      \<not> (Stdout sc \<noteq> None \<and> StdoutPipe w \<noteq> None)) \<and>
   (Stdin sc \<noteq> None \<and> StdinPipe w = Some e \<longrightarrow>
      gitServiceHandler w svc sc = (Some e, [PipeOpen STDIN])) \<and>
   (\<not> (Stdin sc \<noteq> None \<and> StdinPipe w \<noteq> None) \<and> Stdout sc \<noteq> None \<and> StdoutPipe w = Some e \<longrightarrow>
      gitServiceHandler w svc sc =
        (Some e, (if Stdin sc \<noteq> None then [PipeOpen STDIN] else []) @ [PipeOpen STDOUT])) \<and>
   (\<not> (Stdin sc \<noteq> None \<and> StdinPipe w \<noteq> None) \<and> \<not> (Stdout sc \<noteq> None \<and> StdoutPipe w \<noteq> None) \<and>
    Stderr sc \<noteq> None \<and> StderrPipe w = Some e \<longrightarrow>
      gitServiceHandler w svc sc =
        (Some e, (if Stdin sc \<noteq> None then [PipeOpen STDIN] else []) @
                 (if Stdout sc \<noteq> None then [PipeOpen STDOUT] else []) @ [PipeOpen STDERR])) \<and>
   ((\<exists>c. ProcStart c \<in> set (snd (gitServiceHandler w svc sc))) \<longleftrightarrow> pipes_ok w sc)"
proof -
  have a: "PipeOpen STDIN \<in> set (snd (gitServiceHandler w svc sc)) \<longleftrightarrow> Stdin sc \<noteq> None"
    by (simp add: trace_cases PipeOpen_pipe_events PipeOpen_notin_copy_events)
  have b: "PipeOpen STDOUT \<in> set (snd (gitServiceHandler w svc sc)) \<longleftrightarrow>
      Stdout sc \<noteq> None \<and> \<not> (Stdin sc \<noteq> None \<and> StdinPipe w \<noteq> None)"
    by (simp add: trace_cases PipeOpen_pipe_events PipeOpen_notin_copy_events)
  have c: "PipeOpen STDERR \<in> set (snd (gitServiceHandler w svc sc)) \<longleftrightarrow>
      Stderr sc \<noteq> None \<and> \<not> (Stdin sc \<noteq> None \<and> StdinPipe w \<noteq> None) \<and>
      \<not> (Stdout sc \<noteq> None \<and> StdoutPipe w \<noteq> None)"
    by (simp add: trace_cases PipeOpen_pipe_events PipeOpen_notin_copy_events)
  have d: "Stdin sc \<noteq> None \<and> StdinPipe w = Some e \<longrightarrow>
      gitServiceHandler w svc sc = (Some e, [PipeOpen STDIN])"
    by (simp add: gitServiceHandler_def body_stdin_pipe_fails)
  have e: "\<not> (Stdin sc \<noteq> None \<and> StdinPipe w \<noteq> None) \<and> Stdout sc \<noteq> None \<and> StdoutPipe w = Some e \<longrightarrow>
      gitServiceHandler w svc sc =
        (Some e, (if Stdin sc \<noteq> None then [PipeOpen STDIN] else []) @ [PipeOpen STDOUT])"
    using body_stdout_pipe_fails [of sc w e svc] by (auto simp: gitServiceHandler_def)
  have f: "\<not> (Stdin sc \<noteq> None \<and> StdinPipe w \<noteq> None) \<and> \<not> (Stdout sc \<noteq> None \<and> StdoutPipe w \<noteq> None) \<and>
    Stderr sc \<noteq> None \<and> StderrPipe w = Some e \<longrightarrow>
      gitServiceHandler w svc sc =
        (Some e, (if Stdin sc \<noteq> None then [PipeOpen STDIN] else []) @
                 (if Stdout sc \<noteq> None then [PipeOpen STDOUT] else []) @ [PipeOpen STDERR])"
    using body_stderr_pipe_fails [of sc w e svc] by (auto simp: gitServiceHandler_def)
  have g: "(\<exists>c. ProcStart c \<in> set (snd (gitServiceHandler w svc sc))) \<longleftrightarrow> pipes_ok w sc"
    by (auto simp: trace_cases pipes_ok_def split: if_splits)
  from a b c d e f g show ?thesis by blast
qed

theorem pipes_as_requested_witness:
  "gitServiceHandler (quiet_world\<lparr>StdoutPipe := Some too_many_files\<rparr>) UploadPackService sample_request
     = (Some too_many_files, [PipeOpen STDIN, PipeOpen STDOUT]) \<and>
   PipeOpen STDIN \<notin> set (snd (gitServiceHandler quiet_world UploadPackService
       (sample_request\<lparr>Stdin := None\<rparr>))) \<and>
   PipeOpen STDERR \<in> set (snd (gitServiceHandler quiet_world UploadPackService
       (sample_request\<lparr>Stdin := None\<rparr>)))"
proof -
  note th1 = pipes_as_requested [of "quiet_world\<lparr>StdoutPipe := Some too_many_files\<rparr>"
      UploadPackService sample_request too_many_files]
  note th2 = pipes_as_requested [of quiet_world UploadPackService "sample_request\<lparr>Stdin := None\<rparr>"]
  have a: "gitServiceHandler (quiet_world\<lparr>StdoutPipe := Some too_many_files\<rparr>) UploadPackService
      sample_request = (Some too_many_files, [PipeOpen STDIN, PipeOpen STDOUT])"
    using th1 by (simp add: quiet_world_def sample_request_def)
  have b: "PipeOpen STDIN \<notin> set (snd (gitServiceHandler quiet_world UploadPackService
       (sample_request\<lparr>Stdin := None\<rparr>)))"
    using th2 by simp
  have c: "PipeOpen STDERR \<in> set (snd (gitServiceHandler quiet_world UploadPackService
       (sample_request\<lparr>Stdin := None\<rparr>)))"
    using th2 by (simp add: quiet_world_def sample_request_def)
  from a b c show ?thesis by simp
qed

subsection \<open>The environment of the child process\<close>

lemma lookup_env_append:
  "lookup_env (a @ b) k = (case lookup_env b k of Some kv \<Rightarrow> Some kv | None \<Rightarrow> lookup_env a k)"
  by (simp add: lookup_env_def Let_def)

lemma lookup_env_None: "lookup_env env k = None \<longleftrightarrow> k \<notin> env_key ` set env"
  by (auto simp: lookup_env_def Let_def filter_empty_conv)

text \<open>
  Claim C7. The environment the handler builds is the ambient environment followed by
  the descriptor's entries: the ambient entries stay, in place, and for a key the
  descriptor has an entry for, the descriptor's last entry is the one read; for any
  other key the ambient one is. The process is started with this environment after the
  hook, when there is one, has worked on the configuration.
\<close>

theorem child_environment:
  "Cmd.Env (new_cmd w svc sc) = Environ w @ ServiceCommand.Env sc \<and>
   take (length (Environ w)) (Cmd.Env (new_cmd w svc sc)) = Environ w \<and>
   (k \<in> env_key ` set (ServiceCommand.Env sc) \<longrightarrow>
      lookup_env (Cmd.Env (new_cmd w svc sc)) k = lookup_env (ServiceCommand.Env sc) k) \<and>
   (k \<notin> env_key ` set (ServiceCommand.Env sc) \<longrightarrow>
      lookup_env (Cmd.Env (new_cmd w svc sc)) k = lookup_env (Environ w) k) \<and>
   (\<forall>c. ProcStart c \<in> set (snd (gitServiceHandler w svc sc)) \<longrightarrow>
        c = call_CmdFunc sc (new_cmd w svc sc)) \<and>
   (CmdFunc sc = None \<longrightarrow> call_CmdFunc sc (new_cmd w svc sc) = new_cmd w svc sc)"
proof -
  have a: "k \<in> env_key ` set (ServiceCommand.Env sc) \<longrightarrow>
      lookup_env (Cmd.Env (new_cmd w svc sc)) k = lookup_env (ServiceCommand.Env sc) k"
    using lookup_env_None [of "ServiceCommand.Env sc" k]
    by (auto simp: new_cmd_Env lookup_env_append split: option.splits)
  have b: "k \<notin> env_key ` set (ServiceCommand.Env sc) \<longrightarrow>
      lookup_env (Cmd.Env (new_cmd w svc sc)) k = lookup_env (Environ w) k"
    using lookup_env_None [of "ServiceCommand.Env sc" k]
    by (auto simp: new_cmd_Env lookup_env_append split: option.splits)
  have c: "\<forall>c. ProcStart c \<in> set (snd (gitServiceHandler w svc sc)) \<longrightarrow>
        c = call_CmdFunc sc (new_cmd w svc sc)"
    using started_cmd by blast
  from a b c show ?thesis
    by (simp add: new_cmd_Env call_CmdFunc_def)
qed

theorem child_environment_witness:
  "Cmd.Env (new_cmd quiet_world UploadPackService sample_request) =
     [''PATH=/usr/bin'', ''HOME=/srv'', ''HOME=/tmp'', ''SOFT_SERVE_REPO_NAME=a''] \<and>
   lookup_env (Cmd.Env (new_cmd quiet_world UploadPackService sample_request)) ''HOME''
     = Some ''HOME=/tmp'' \<and>
   lookup_env (Cmd.Env (new_cmd quiet_world UploadPackService sample_request)) ''PATH''
     = Some ''PATH=/usr/bin''"
proof -
  have env: "ServiceCommand.Env sample_request = [''HOME=/tmp'', ''SOFT_SERVE_REPO_NAME=a'']"
    by (simp add: sample_request_def)
  have amb: "Environ quiet_world = [''PATH=/usr/bin'', ''HOME=/srv'']"
    by (simp add: quiet_world_def)
  have home: "''HOME'' \<in> env_key ` set (ServiceCommand.Env sample_request)"
    by (simp add: env env_key_def)
  have path: "''PATH'' \<notin> env_key ` set (ServiceCommand.Env sample_request)"
    by (simp add: env env_key_def)
  have a: "Cmd.Env (new_cmd quiet_world UploadPackService sample_request) =
     [''PATH=/usr/bin'', ''HOME=/srv'', ''HOME=/tmp'', ''SOFT_SERVE_REPO_NAME=a'']"
    using child_environment [of quiet_world UploadPackService sample_request] by (simp add: env amb)
  have b: "lookup_env (Cmd.Env (new_cmd quiet_world UploadPackService sample_request)) ''HOME''
     = lookup_env (ServiceCommand.Env sample_request) ''HOME''"
    using child_environment [of quiet_world UploadPackService sample_request "''HOME''"] home by blast
  have c: "lookup_env (Cmd.Env (new_cmd quiet_world UploadPackService sample_request)) ''PATH''
     = lookup_env (Environ quiet_world) ''PATH''"
    using child_environment [of quiet_world UploadPackService sample_request "''PATH''"] path by blast
  from a b c show ?thesis
    by (simp add: env amb lookup_env_def env_key_def)
qed

subsection \<open>Dispatch\<close>

text \<open>
  Claim C9. \<^verbatim>\<open>UploadPack\<close>, \<^verbatim>\<open>UploadArchive\<close> and \<^verbatim>\<open>ReceivePack\<close> give what
  \<^verbatim>\<open>Service.Handler\<close> gives for the corresponding service, whatever the two LFS handlers
  are: each is the call of \<^verbatim>\<open>gitServiceHandler\<close> with that service.
\<close>

theorem wrappers_are_Handler:
  "UploadPack w sc = Handler LFSTransfer LFSAuthenticate w UploadPackService sc \<and>
   UploadArchive w sc = Handler LFSTransfer LFSAuthenticate w UploadArchiveService sc \<and>
   ReceivePack w sc = Handler LFSTransfer LFSAuthenticate w ReceivePackService sc \<and>
   UploadPack w sc = gitServiceHandler w UploadPackService sc \<and>
   UploadArchive w sc = gitServiceHandler w UploadArchiveService sc \<and>
   ReceivePack w sc = gitServiceHandler w ReceivePackService sc"
  by (simp add: UploadPack_def UploadArchive_def ReceivePack_def Handler_def)

theorem wrappers_are_Handler_witness:
  "UploadPack quiet_world sample_request = Handler no_lfs no_lfs quiet_world UploadPackService sample_request \<and>
   UploadArchive quiet_world sample_request = Handler no_lfs no_lfs quiet_world UploadArchiveService sample_request \<and>
   ReceivePack quiet_world sample_request = Handler no_lfs no_lfs quiet_world ReceivePackService sample_request"
  using wrappers_are_Handler [of quiet_world sample_request no_lfs no_lfs] by simp

lemma services_distinct:
  "UploadPackService \<noteq> LFSTransferService" "UploadPackService \<noteq> LFSAuthenticateService"
  "UploadArchiveService \<noteq> LFSTransferService" "UploadArchiveService \<noteq> LFSAuthenticateService"
  "ReceivePackService \<noteq> LFSTransferService" "ReceivePackService \<noteq> LFSAuthenticateService"
  "LFSTransferService \<noteq> LFSAuthenticateService"
  by (simp_all add: UploadPackService_def UploadArchiveService_def ReceivePackService_def
      LFSTransferService_def LFSAuthenticateService_def)

lemma quiet_world_no_error:
  "fst (gitServiceHandler quiet_world svc sc) = None"
proof -
  have ok: "pipes_ok quiet_world sc"
    by (simp add: pipes_ok_def quiet_world_def)
  have st: "Start quiet_world = None" and wt: "Wait quiet_world = None"
    by (simp_all add: quiet_world_def)
  show ?thesis
    by (simp add: returned_value_waited [OF ok st] wt wait_value_def)
qed

text \<open>
  Claim C3. For a service that is none of the five defined ones, \<^verbatim>\<open>Service.Handler\<close>
  returns the error \<^verbatim>\<open>unsupported service: \<close> followed by the service as given, and does
  nothing else. The three git services go to \<^verbatim>\<open>gitServiceHandler\<close> and the two LFS
  services to their handlers, with the same descriptor. The handler answers with the
  unsupported-service error whatever the system and the LFS handlers do exactly when the
  service is none of the five.
\<close>

theorem Handler_dispatch:
  "(s \<notin> {UploadPackService, UploadArchiveService, ReceivePackService, LFSTransferService,
          LFSAuthenticateService} \<longrightarrow>
      Handler LFSTransfer LFSAuthenticate w s sc =
        (Some (ErrorString (''unsupported service: '' @ s)), [])) \<and>
   (s \<in> {UploadPackService, UploadArchiveService, ReceivePackService} \<longrightarrow>
      Handler LFSTransfer LFSAuthenticate w s sc = gitServiceHandler w s sc) \<and>
   (s = LFSTransferService \<longrightarrow> Handler LFSTransfer LFSAuthenticate w s sc = LFSTransfer w sc) \<and>
   (s = LFSAuthenticateService \<longrightarrow>
      Handler LFSTransfer LFSAuthenticate w s sc = LFSAuthenticate w sc) \<and>
   ((\<forall>lfs_transfer lfs_authenticate w' sc'.
       Handler lfs_transfer lfs_authenticate w' s sc' =
         (Some (ErrorString (''unsupported service: '' @ s)), [])) \<longleftrightarrow>
    s \<notin> {UploadPackService, UploadArchiveService, ReceivePackService, LFSTransferService,
          LFSAuthenticateService})"
proof -
  let ?unsupported = "(Some (ErrorString (''unsupported service: '' @ s)), []) :: error option \<times> event list"
  have a: "s \<notin> {UploadPackService, UploadArchiveService, ReceivePackService, LFSTransferService,
          LFSAuthenticateService} \<Longrightarrow>
      Handler lt la w' s sc' = ?unsupported" for lt la w' sc'
    by (simp add: Handler_def Service_String_def)
  have b: "s \<in> {UploadPackService, UploadArchiveService, ReceivePackService} \<Longrightarrow>
      Handler lt la w' s sc' = gitServiceHandler w' s sc'" for lt la w' sc'
    by (auto simp: Handler_def)
  have c: "s = LFSTransferService \<Longrightarrow> Handler lt la w' s sc' = lt w' sc'" for lt la w' sc'
    using services_distinct by (simp add: Handler_def)
  have d: "s = LFSAuthenticateService \<Longrightarrow> Handler lt la w' s sc' = la w' sc'" for lt la w' sc'
    using services_distinct by (simp add: Handler_def)
  have e: "s \<notin> {UploadPackService, UploadArchiveService, ReceivePackService, LFSTransferService,
          LFSAuthenticateService}"
    if all: "\<forall>lfs_transfer lfs_authenticate w' sc'.
       Handler lfs_transfer lfs_authenticate w' s sc' = ?unsupported"
  proof
    assume "s \<in> {UploadPackService, UploadArchiveService, ReceivePackService, LFSTransferService,
          LFSAuthenticateService}"
    then consider "s \<in> {UploadPackService, UploadArchiveService, ReceivePackService}"
      | "s = LFSTransferService" | "s = LFSAuthenticateService"
      by auto
    then show False
    proof cases
      case 1
      have "fst (Handler no_lfs no_lfs quiet_world s sample_request) = None"
        by (simp add: b [OF 1] quiet_world_no_error)
      with all show False by simp
    next
      case 2
      have "Handler no_lfs no_lfs quiet_world s sample_request = (None, [])"
        by (simp add: c [OF 2] no_lfs_def)
      with all show False by simp
    next
      case 3
      have "Handler no_lfs no_lfs quiet_world s sample_request = (None, [])"
        by (simp add: d [OF 3] no_lfs_def)
      with all show False by simp
    qed
  qed
  from a b c d e show ?thesis by blast
qed

theorem Handler_dispatch_witness:
  "Handler no_lfs no_lfs quiet_world ''git-upload-pak'' sample_request =
     (Some (ErrorString ''unsupported service: git-upload-pak''), []) \<and>
   Handler no_lfs no_lfs quiet_world ''git-receive-pack'' sample_request =
     gitServiceHandler quiet_world ''git-receive-pack'' sample_request \<and>
   Handler no_lfs no_lfs quiet_world ''git-lfs-transfer'' sample_request = (None, [])"
proof -
  have u: "''git-upload-pak'' \<notin> {UploadPackService, UploadArchiveService, ReceivePackService,
      LFSTransferService, LFSAuthenticateService}"
    by (simp add: UploadPackService_def UploadArchiveService_def ReceivePackService_def
        LFSTransferService_def LFSAuthenticateService_def)
  have g: "''git-receive-pack'' \<in> {UploadPackService, UploadArchiveService, ReceivePackService}"
    by (simp add: ReceivePackService_def)
  have l: "''git-lfs-transfer'' = LFSTransferService"
    by (simp add: LFSTransferService_def)
  have a: "Handler no_lfs no_lfs quiet_world ''git-upload-pak'' sample_request =
     (Some (ErrorString ''unsupported service: git-upload-pak''), [])"
    using Handler_dispatch [of "''git-upload-pak''" no_lfs no_lfs quiet_world sample_request] u
    by simp
  have b: "Handler no_lfs no_lfs quiet_world ''git-receive-pack'' sample_request =
     gitServiceHandler quiet_world ''git-receive-pack'' sample_request"
    using Handler_dispatch [of "''git-receive-pack''" no_lfs no_lfs quiet_world sample_request] g
    by blast
  have c: "Handler no_lfs no_lfs quiet_world ''git-lfs-transfer'' sample_request = (None, [])"
    using Handler_dispatch [of "''git-lfs-transfer''" no_lfs no_lfs quiet_world sample_request] l
    by (simp add: no_lfs_def)
  from a b c show ?thesis by simp
qed

subsection \<open>Errors of the copy tasks\<close>

lemma LogErrorf_copy_events:
  "LogErrorf fmt a \<in> set (copy_events w sc) \<longleftrightarrow>
     (Stdin sc \<noteq> None \<and> Copy_stdin w \<noteq> None \<and>
        fmt = ''gitServiceHandler: failed to copy stdin: %v'' \<and> a = Copy_stdin w) \<or>
     (Stdout sc \<noteq> None \<and> Copy_stdout w \<noteq> None \<and>
        fmt = ''gitServiceHandler: failed to copy stdout: %v'' \<and> a = Copy_stdout w)"
  by (auto simp: copy_events_def split: option.splits)

lemma LogErrorf_notin_pipe_events: "LogErrorf fmt a \<notin> set (pipe_events sc)"
  by (simp add: pipe_events_def)

lemma logged_iff:
  "LogErrorf fmt a \<in> set (snd (gitServiceHandler w svc sc)) \<longleftrightarrow>
     pipes_ok w sc \<and> Start w = None \<and> LogErrorf fmt a \<in> set (copy_events w sc)"
  by (auto simp: trace_cases pipes_ok_def LogErrorf_notin_pipe_events split: if_splits)

lemma stdin_copy_error_logged:
  "pipes_ok w sc \<Longrightarrow> Start w = None \<Longrightarrow> Stdin sc \<noteq> None \<Longrightarrow> Copy_stdin w = Some e \<Longrightarrow>
   LogErrorf ''gitServiceHandler: failed to copy stdin: %v'' (Some e)
     \<in> set (snd (gitServiceHandler w svc sc))"
  by (simp add: logged_iff LogErrorf_copy_events)

lemma stdout_copy_error_logged:
  "pipes_ok w sc \<Longrightarrow> Start w = None \<Longrightarrow> Stdout sc \<noteq> None \<Longrightarrow> Copy_stdout w = Some e \<Longrightarrow>
   LogErrorf ''gitServiceHandler: failed to copy stdout: %v'' (Some e)
     \<in> set (snd (gitServiceHandler w svc sc))"
  by (simp add: logged_iff LogErrorf_copy_events)

lemma stderr_copy_error_never_logged:
  "LogErrorf ''gitServiceHandler: failed to copy stderr: %v'' a
     \<notin> set (snd (gitServiceHandler w svc sc))"
  by (simp add: logged_iff LogErrorf_copy_events)

lemma copy_errors_do_not_change_result:
  "fst (gitServiceHandler (w\<lparr>Copy_stdin := a, Copy_stdout := b, Copy_stderr := c\<rparr>) svc sc) =
   fst (gitServiceHandler w svc sc)"
proof -
  let ?w = "w\<lparr>Copy_stdin := a, Copy_stdout := b, Copy_stderr := c\<rparr>"
  have same: "StdinPipe ?w = StdinPipe w" "StdoutPipe ?w = StdoutPipe w"
    "StderrPipe ?w = StderrPipe w" "Start ?w = Start w" "Wait ?w = Wait w"
    "pipes_ok ?w sc = pipes_ok w sc"
    by (simp_all add: pipes_ok_def)
  show ?thesis
  proof (cases rule: run_cases [of sc w])
    case (stdin_pipe_fails e)
    then show ?thesis
      by (simp add: gitServiceHandler_def body_stdin_pipe_fails same)
  next
    case (stdout_pipe_fails e)
    then show ?thesis
      using body_stdout_pipe_fails [of sc w e svc] body_stdout_pipe_fails [of sc ?w e svc]
      by (simp add: gitServiceHandler_def same)
  next
    case (stderr_pipe_fails e)
    then show ?thesis
      using body_stderr_pipe_fails [of sc w e svc] body_stderr_pipe_fails [of sc ?w e svc]
      by (simp add: gitServiceHandler_def same)
  next
    case (start_fails e)
    then show ?thesis
      using returned_value_start_fails [of w sc e svc] returned_value_start_fails [of ?w sc e svc]
      by (simp add: same)
  next
    case started
    then show ?thesis
      using returned_value_waited [of w sc svc] returned_value_waited [of ?w sc svc]
      by (simp add: same)
  qed
qed

text \<open>
  Claim C5, on the code. With all three streams asked for and every call succeeding but
  the copy of the error stream, the run logs nothing (first trace); the same failure of
  the output copy is logged (second trace). The value returned does not depend on
  what the copies return (\<open>copy_errors_do_not_change_result\<close> above).
\<close>

theorem stderr_copy_error_is_dropped:
  "snd (gitServiceHandler (quiet_world\<lparr>Copy_stderr := Some broken_pipe\<rparr>) UploadPackService
        sample_request) =
     [PipeOpen STDIN, PipeOpen STDOUT, PipeOpen STDERR,
      ProcStart (new_cmd (quiet_world\<lparr>Copy_stderr := Some broken_pipe\<rparr>) UploadPackService sample_request),
      IoCopy STDIN, PipeClose STDIN, IoCopy STDOUT, IoCopy STDERR, WaitGroupWait, ProcWait] \<and>
   snd (gitServiceHandler (quiet_world\<lparr>Copy_stdout := Some broken_pipe\<rparr>) UploadPackService
        sample_request) =
     [PipeOpen STDIN, PipeOpen STDOUT, PipeOpen STDERR,
      ProcStart (new_cmd (quiet_world\<lparr>Copy_stdout := Some broken_pipe\<rparr>) UploadPackService sample_request),
      IoCopy STDIN, PipeClose STDIN, IoCopy STDOUT,
      LogErrorf ''gitServiceHandler: failed to copy stdout: %v'' (Some broken_pipe),
      IoCopy STDERR, WaitGroupWait, ProcWait]"
  by (simp add: trace_cases quiet_world_def sample_request_def pipe_events_def copy_events_def
      call_CmdFunc_def)

subsection \<open>The copy tasks and the wait group\<close>

lemma threads_inv_after_start: "threads_inv sc after_start"
  by (simp add: threads_inv_def after_start_def running_def)

lemma threads_inv_Function:
  assumes inv: "threads_inv sc s" and st: "thread_step w sc Function s = Some s'"
  shows "threads_inv sc s'"
proof (cases "at s")
  case L125
  with st have s': "s' = (if Stdin sc \<noteq> None then s\<lparr>at := L135, stdin_copier := Copying\<rparr>
                      else s\<lparr>at := L135\<rparr>)"
    by simp
  show ?thesis using inv L125 unfolding s' threads_inv_def by (clarsimp simp: running_def)
next
  case L135
  with st have s': "s' = (if Stdout sc \<noteq> None
                      then s\<lparr>at := L146, wg := wg s + 1, stdout_copier := Copying\<rparr>
                      else s\<lparr>at := L146\<rparr>)"
    by simp
  show ?thesis using inv L135 unfolding s' threads_inv_def by (clarsimp simp: running_def)
next
  case L146
  with st have s': "s' = (if Stderr sc \<noteq> None
                      then s\<lparr>at := L159, wg := wg s + 1, stderr_copier := Copying\<rparr>
                      else s\<lparr>at := L159\<rparr>)"
    by simp
  show ?thesis using inv L146 unfolding s' threads_inv_def
    by (clarsimp simp: running_def split: if_splits)
next
  case L159
  with st have z: "wg s = 0" and s': "s' = s\<lparr>at := L161\<rparr>"
    by (simp_all split: if_splits)
  show ?thesis using inv L159 z unfolding s' threads_inv_def by (clarsimp simp: running_def)
next
  case L161
  with st have s': "s' = s\<lparr>at := Returned, err_var := Wait w,
                         value_returned := wait_value (Wait w)\<rparr>"
    by simp
  show ?thesis using inv L161 unfolding s' threads_inv_def by (clarsimp simp: running_def)
next
  case Returned
  with st show ?thesis by simp
qed


lemma threads_inv_StdinCopier:
  assumes inv: "threads_inv sc s" and st: "thread_step w sc StdinCopier s = Some s'"
  shows "threads_inv sc s'"
proof (cases "stdin_copier s")
  case NotStarted
  with st show ?thesis by simp
next
  case Copying
  with st have s': "s' = s\<lparr>stdin_copier := Copied, logged := logged s @
          (case Copy_stdin w of
             Some e \<Rightarrow> [LogErrorf ''gitServiceHandler: failed to copy stdin: %v'' (Some e)]
           | None \<Rightarrow> [])\<rparr>"
    by simp
  show ?thesis using inv Copying unfolding s' threads_inv_def
    by (clarsimp split: option.splits)
next
  case Copied
  with st have s': "s' = s\<lparr>stdin_copier := Finished, stdin_closed := True\<rparr>"
    by simp
  show ?thesis using inv Copied unfolding s' threads_inv_def by clarsimp
next
  case Finished
  with st show ?thesis by simp
qed

lemma threads_inv_StdoutCopier:
  assumes inv: "threads_inv sc s" and st: "thread_step w sc StdoutCopier s = Some s'"
  shows "threads_inv sc s'"
proof (cases "stdout_copier s")
  case NotStarted
  with st show ?thesis by simp
next
  case Copying
  with st have s': "s' = s\<lparr>stdout_copier := Copied, logged := logged s @
          (case Copy_stdout w of
             Some e \<Rightarrow> [LogErrorf ''gitServiceHandler: failed to copy stdout: %v'' (Some e)]
           | None \<Rightarrow> [])\<rparr>"
    by simp
  from inv Copying have nz: "wg s \<noteq> 0"
    unfolding threads_inv_def by (auto simp: running_def)
  with inv have at: "at s \<noteq> L161" "at s \<noteq> Returned"
    unfolding threads_inv_def by auto
  show ?thesis using inv Copying at unfolding s' threads_inv_def
    by (clarsimp simp: running_def split: option.splits)
next
  case Copied
  with st have s': "s' = s\<lparr>stdout_copier := Finished, wg := wg s - 1\<rparr>"
    by simp
  show ?thesis using inv Copied unfolding s' threads_inv_def
    by (auto simp: running_def)
next
  case Finished
  with st show ?thesis by simp
qed

lemma threads_inv_StderrCopier:
  assumes inv: "threads_inv sc s" and st: "thread_step w sc StderrCopier s = Some s'"
  shows "threads_inv sc s'"
proof (cases "stderr_copier s")
  case NotStarted
  with st show ?thesis by simp
next
  case Copying
  from inv Copying have "wg s \<noteq> 0"
    unfolding threads_inv_def by (simp add: running_def)
  with inv have e: "err_var s = None"
    unfolding threads_inv_def by auto
  from st Copying e have s': "s' = s\<lparr>stderr_copier := Copied\<rparr>"
    by simp
  from \<open>wg s \<noteq> 0\<close> inv have at: "at s \<noteq> L161" "at s \<noteq> Returned"
    unfolding threads_inv_def by auto
  show ?thesis using inv Copying at unfolding s' threads_inv_def
    by (clarsimp simp: running_def)
next
  case Copied
  with st have s': "s' = s\<lparr>stderr_copier := Finished, wg := wg s - 1\<rparr>"
    by simp
  show ?thesis using inv Copied unfolding s' threads_inv_def
    by (auto simp: running_def)
next
  case Finished
  with st show ?thesis by simp
qed

lemma threads_inv_step:
  "threads_inv sc s \<Longrightarrow> thread_step w sc t s = Some s' \<Longrightarrow> threads_inv sc s'"
  by (cases t) (blast intro: threads_inv_Function threads_inv_StdinCopier
      threads_inv_StdoutCopier threads_inv_StderrCopier)+

lemma threads_inv_schedule:
  "threads_inv sc s \<Longrightarrow> schedule w sc ts s = Some s' \<Longrightarrow> threads_inv sc s'"
proof (induction ts arbitrary: s)
  case Nil
  then show ?case by simp
next
  case (Cons t ts)
  from Cons.prems(2) obtain s1 where s1: "thread_step w sc t s = Some s1"
    and rest: "schedule w sc ts s1 = Some s'"
    by (auto split: option.splits)
  from threads_inv_step [OF Cons.prems(1) s1] rest show ?case
    by (rule Cons.IH)
qed

lemma schedule_append:
  "schedule w sc (ts @ us) s =
     (case schedule w sc ts s of None \<Rightarrow> None | Some s' \<Rightarrow> schedule w sc us s')"
  by (induction ts arbitrary: s) (auto split: option.splits)

lemma input_left_behind_run:
  "schedule w sc (input_left_behind sc) after_start =
     Some \<lparr>at = Returned, err_var = Wait w, wg = 0,
       stdin_copier = (if Stdin sc \<noteq> None then Copying else NotStarted),
       stdout_copier = (if Stdout sc \<noteq> None then Finished else NotStarted),
       stderr_copier = (if Stderr sc \<noteq> None then Finished else NotStarted),
       stdin_closed = False,
       logged = (if Stdout sc \<noteq> None then
                   (case Copy_stdout w of
                      Some e \<Rightarrow> [LogErrorf ''gitServiceHandler: failed to copy stdout: %v'' (Some e)]
                    | None \<Rightarrow> [])
                 else []),
       value_returned = wait_value (Wait w)\<rparr>"
  by (cases "Stdin sc"; cases "Stdout sc"; cases "Stderr sc")
     (simp_all add: input_left_behind_def after_start_def)


text \<open>
  The run in the order of the source ends in the state the sequential reading of the
  function gives: the same value returned and the same log entries.
\<close>

lemma program_order_run:
  "schedule w sc (program_order sc) after_start =
     Some \<lparr>at = Returned, err_var = Wait w, wg = 0,
       stdin_copier = (if Stdin sc \<noteq> None then Finished else NotStarted),
       stdout_copier = (if Stdout sc \<noteq> None then Finished else NotStarted),
       stderr_copier = (if Stderr sc \<noteq> None then Finished else NotStarted),
       stdin_closed = (Stdin sc \<noteq> None),
       logged = filter is_LogErrorf (copy_events w sc),
       value_returned = wait_value (Wait w)\<rparr>"
  by (cases "Stdin sc"; cases "Stdout sc"; cases "Stderr sc"; cases "Copy_stdin w";
      cases "Copy_stdout w")
     (simp_all add: program_order_def after_start_def copy_events_def)

lemma is_LogErrorf_pipe_events: "filter is_LogErrorf (pipe_events sc) = []"
  by (simp add: pipe_events_def)

lemma program_order_agrees:
  assumes "pipes_ok w sc" "Start w = None"
  shows "\<exists>s. schedule w sc (program_order sc) after_start = Some s \<and> at s = Returned \<and>
           value_returned s = fst (gitServiceHandler w svc sc) \<and>
           logged s = filter is_LogErrorf (snd (gitServiceHandler w svc sc))"
  using assms
  by (simp add: program_order_run gitServiceHandler_def body_waited is_LogErrorf_pipe_events)

text \<open>Whatever the schedule, the value returned is the one the wait decides.\<close>

lemma value_returned_step:
  "thread_step w sc t s = Some s' \<Longrightarrow>
   (at s = Returned \<longrightarrow> value_returned s = wait_value (Wait w)) \<Longrightarrow>
   (at s' = Returned \<longrightarrow> value_returned s' = wait_value (Wait w))"
proof (cases t)
  case Function
  then show "thread_step w sc t s = Some s' \<Longrightarrow>
      (at s = Returned \<longrightarrow> value_returned s = wait_value (Wait w)) \<Longrightarrow> ?thesis"
    by (cases "at s") (auto split: if_splits)
next
  case StdinCopier
  then show "thread_step w sc t s = Some s' \<Longrightarrow>
      (at s = Returned \<longrightarrow> value_returned s = wait_value (Wait w)) \<Longrightarrow> ?thesis"
    by (cases "stdin_copier s") auto
next
  case StdoutCopier
  then show "thread_step w sc t s = Some s' \<Longrightarrow>
      (at s = Returned \<longrightarrow> value_returned s = wait_value (Wait w)) \<Longrightarrow> ?thesis"
    by (cases "stdout_copier s") auto
next
  case StderrCopier
  then show "thread_step w sc t s = Some s' \<Longrightarrow>
      (at s = Returned \<longrightarrow> value_returned s = wait_value (Wait w)) \<Longrightarrow> ?thesis"
    by (cases "stderr_copier s") auto
qed

lemma value_returned_schedule:
  "schedule w sc ts s = Some s' \<Longrightarrow>
   (at s = Returned \<longrightarrow> value_returned s = wait_value (Wait w)) \<Longrightarrow>
   (at s' = Returned \<longrightarrow> value_returned s' = wait_value (Wait w))"
proof (induction ts arbitrary: s)
  case Nil
  then show ?case by simp
next
  case (Cons t ts)
  from Cons.prems(1) obtain s1 where s1: "thread_step w sc t s = Some s1"
    and rest: "schedule w sc ts s1 = Some s'"
    by (auto split: option.splits)
  from value_returned_step [OF s1 Cons.prems(2)] show ?case
    by (rule Cons.IH [OF rest])
qed

lemma value_returned_any_schedule:
  "schedule w sc ts after_start = Some s \<Longrightarrow> at s = Returned \<Longrightarrow>
   value_returned s = wait_value (Wait w)"
  using value_returned_schedule [of w sc ts after_start s] by (simp add: after_start_def)

lemma stderr_copy_error_not_logged_by_any_schedule:
  "schedule w sc ts after_start = Some s \<Longrightarrow>
   LogErrorf ''gitServiceHandler: failed to copy stderr: %v'' a \<notin> set (logged s)"
  using threads_inv_schedule [OF threads_inv_after_start, of w sc ts s]
  by (simp add: threads_inv_def)


lemma Function_blocked_iff:
  "thread_step w sc Function s = None \<longleftrightarrow> at s = Returned \<or> (at s = L159 \<and> wg s \<noteq> 0)"
  by (cases "at s") auto

text \<open>
  Claim C8. In every state a run reaches after the start: each stream the descriptor
  supplies has a copy task of its own once the function is past the lines that start
  them; when the function is at \<^verbatim>\<open>cmd.Wait()\<close> or has returned, the output and error
  copy tasks that were started have finished; the function cannot move exactly when it
  has returned or is at \<^verbatim>\<open>wg.Wait()\<close> with an output or error copy task unfinished, so
  it never waits for the input copy task; the input pipe is closed exactly when the
  input copy task has finished, which it does in two steps whatever the copy returned;
  and with an input source there is a run in which the function has returned while the
  input copy is still going on.
\<close>

theorem copy_tasks_joined_input_detached:
  "schedule w sc ts after_start = Some s \<Longrightarrow>
   (at s = L161 \<or> at s = Returned \<longrightarrow>
      (Stdout sc \<noteq> None \<longrightarrow> stdout_copier s = Finished) \<and>
      (Stderr sc \<noteq> None \<longrightarrow> stderr_copier s = Finished)) \<and>
   (at s \<noteq> L125 \<and> at s \<noteq> L135 \<and> at s \<noteq> L146 \<longrightarrow>
      (stdin_copier s \<noteq> NotStarted \<longleftrightarrow> Stdin sc \<noteq> None) \<and>
      (stdout_copier s \<noteq> NotStarted \<longleftrightarrow> Stdout sc \<noteq> None) \<and>
      (stderr_copier s \<noteq> NotStarted \<longleftrightarrow> Stderr sc \<noteq> None)) \<and>
   (thread_step w sc Function s = None \<longleftrightarrow>
      at s = Returned \<or>
      (at s = L159 \<and> (stdout_copier s = Copying \<or> stdout_copier s = Copied \<or>
                       stderr_copier s = Copying \<or> stderr_copier s = Copied))) \<and>
   (stdin_closed s \<longleftrightarrow> stdin_copier s = Finished) \<and>
   (stdin_copier s = Copying \<longrightarrow>
      (\<exists>s'. thread_step w sc StdinCopier s = Some s' \<and> stdin_copier s' = Copied)) \<and>
   (stdin_copier s = Copied \<longrightarrow>
      (\<exists>s'. thread_step w sc StdinCopier s = Some s' \<and> stdin_copier s' = Finished \<and>
            stdin_closed s')) \<and>
   (Stdin sc \<noteq> None \<longrightarrow>
      (\<exists>s'. schedule w sc (input_left_behind sc) after_start = Some s' \<and> at s' = Returned \<and>
            stdin_copier s' = Copying \<and> \<not> stdin_closed s'))"
proof -
  assume run: "schedule w sc ts after_start = Some s"
  have inv: "threads_inv sc s"
    using threads_inv_after_start run by (rule threads_inv_schedule)
  have wg: "running (stdout_copier s) + running (stderr_copier s) = wg s"
    using inv by (simp add: threads_inv_def)
  have joined: "at s = L161 \<or> at s = Returned \<longrightarrow>
      (Stdout sc \<noteq> None \<longrightarrow> stdout_copier s = Finished) \<and>
      (Stderr sc \<noteq> None \<longrightarrow> stderr_copier s = Finished)"
  proof (intro impI)
    assume past: "at s = L161 \<or> at s = Returned"
    with inv have z: "wg s = 0"
      by (simp add: threads_inv_def)
    from past have lines: "at s \<noteq> L125" "at s \<noteq> L135" "at s \<noteq> L146"
      by auto
    from z wg have idle: "running (stdout_copier s) = 0" "running (stderr_copier s) = 0"
      by simp_all
    from inv lines have started:
      "Stdout sc \<noteq> None \<longrightarrow> stdout_copier s \<noteq> NotStarted"
      "Stderr sc \<noteq> None \<longrightarrow> stderr_copier s \<noteq> NotStarted"
      by (simp_all add: threads_inv_def)
    from idle started show "(Stdout sc \<noteq> None \<longrightarrow> stdout_copier s = Finished) \<and>
      (Stderr sc \<noteq> None \<longrightarrow> stderr_copier s = Finished)"
      by (cases "stdout_copier s"; cases "stderr_copier s") (simp_all add: running_def)
  qed
  have own: "at s \<noteq> L125 \<and> at s \<noteq> L135 \<and> at s \<noteq> L146 \<longrightarrow>
      (stdin_copier s \<noteq> NotStarted \<longleftrightarrow> Stdin sc \<noteq> None) \<and>
      (stdout_copier s \<noteq> NotStarted \<longleftrightarrow> Stdout sc \<noteq> None) \<and>
      (stderr_copier s \<noteq> NotStarted \<longleftrightarrow> Stderr sc \<noteq> None)"
    using inv by (simp add: threads_inv_def)
  have nz: "wg s \<noteq> 0 \<longleftrightarrow> stdout_copier s = Copying \<or> stdout_copier s = Copied \<or>
      stderr_copier s = Copying \<or> stderr_copier s = Copied"
    using wg by (auto simp: running_def split: if_splits)
  have blocked: "thread_step w sc Function s = None \<longleftrightarrow>
      at s = Returned \<or>
      (at s = L159 \<and> (stdout_copier s = Copying \<or> stdout_copier s = Copied \<or>
                       stderr_copier s = Copying \<or> stderr_copier s = Copied))"
    unfolding Function_blocked_iff nz ..
  have closed: "stdin_closed s \<longleftrightarrow> stdin_copier s = Finished"
    using inv by (simp add: threads_inv_def)
  have copy: "stdin_copier s = Copying \<longrightarrow>
      (\<exists>s'. thread_step w sc StdinCopier s = Some s' \<and> stdin_copier s' = Copied)"
    by simp
  have close: "stdin_copier s = Copied \<longrightarrow>
      (\<exists>s'. thread_step w sc StdinCopier s = Some s' \<and> stdin_copier s' = Finished \<and>
            stdin_closed s')"
    by simp
  have detached: "Stdin sc \<noteq> None \<longrightarrow>
      (\<exists>s'. schedule w sc (input_left_behind sc) after_start = Some s' \<and> at s' = Returned \<and>
            stdin_copier s' = Copying \<and> \<not> stdin_closed s')"
    by (simp add: input_left_behind_run)
  from joined own blocked closed copy close detached show ?thesis
    by blast
qed

theorem copy_tasks_joined_input_detached_witness:
  "\<exists>s. schedule quiet_world sample_request (input_left_behind sample_request) after_start = Some s \<and>
       at s = Returned \<and> stdout_copier s = Finished \<and> stderr_copier s = Finished \<and>
       stdin_copier s = Copying \<and> \<not> stdin_closed s"
proof -
  have streams: "Stdin sample_request \<noteq> None" "Stdout sample_request \<noteq> None"
    "Stderr sample_request \<noteq> None"
    by (simp_all add: sample_request_def)
  have start: "schedule quiet_world sample_request [] after_start = Some after_start"
    by simp
  from copy_tasks_joined_input_detached [OF start] streams(1)
  obtain s where run: "schedule quiet_world sample_request (input_left_behind sample_request)
      after_start = Some s"
    and s: "at s = Returned" "stdin_copier s = Copying" "\<not> stdin_closed s"
    by blast
  from copy_tasks_joined_input_detached [OF run] s(1) streams(2,3)
  have "stdout_copier s = Finished" "stderr_copier s = Finished"
    by blast+
  with run s show ?thesis by blast
qed

subsection \<open>The descriptor\<close>

text \<open>First the store: what \<^verbatim>\<open>append\<close> does to arrays.\<close>

lemma alloc_facts:
  assumes "alloc st xs c = (sl, st')"
  shows "arr sl = next_free st" "next_free st' = Suc (next_free st)"
    "a \<noteq> next_free st \<Longrightarrow> arrays st' a = arrays st a"
    "elems st' sl = xs" "valid_slice st' sl" "len sl = length xs"
  using assms by (auto simp: alloc_def Let_def elems_def valid_slice_def)

lemma overwrite_window:
  assumes "k + n + length xs \<le> length a"
  shows "take (n + length xs) (drop k (take (k + n) a @ xs @ drop (k + n + length xs) a)) =
         take n (drop k a) @ xs"
proof -
  have l: "length (take (k + n) a) = k + n"
    using assms by simp
  have "drop k (take (k + n) a @ xs @ drop (k + n + length xs) a) =
        drop k (take (k + n) a) @ xs @ drop (k + n + length xs) a"
    using l by simp
  also have "drop k (take (k + n) a) = take n (drop k a)"
    by (simp add: drop_take)
  finally have d: "drop k (take (k + n) a @ xs @ drop (k + n + length xs) a) =
        take n (drop k a) @ xs @ drop (k + n + length xs) a" .
  have ln: "length (take n (drop k a)) = n"
    using assms by simp
  show ?thesis
    unfolding d using ln by simp
qed

lemma go_append_in_place:
  assumes "len sl + length xs \<le> cap sl"
  shows "go_append grow st sl xs =
     (sl\<lparr>len := len sl + length xs\<rparr>,
      st\<lparr>arrays := (arrays st)(arr sl :=
          take (off sl + len sl) (arrays st (arr sl)) @ xs @
          drop (off sl + len sl + length xs) (arrays st (arr sl)))\<rparr>)"
  using assms by (simp add: go_append_def Let_def)

lemma go_append_grows:
  assumes "\<not> len sl + length xs \<le> cap sl"
  shows "go_append grow st sl xs =
     alloc st (elems st sl @ xs) (grow (cap sl) (len sl + length xs))"
  using assms by (simp add: go_append_def)

lemma go_append_facts:
  assumes ap: "go_append grow st sl xs = (sl', st')" and v: "valid_slice st sl"
  shows "next_free st \<le> next_free st'"
    and "arr sl' = arr sl \<or> arr sl' = next_free st"
    and "a \<noteq> arr sl \<Longrightarrow> a < next_free st \<Longrightarrow> arrays st' a = arrays st a"
    and "elems st' sl' = elems st sl @ xs"
    and "valid_slice st' sl'"
proof -
  show "next_free st \<le> next_free st'"
  proof (cases "len sl + length xs \<le> cap sl")
    case True
    with ap show ?thesis by (auto simp: go_append_in_place)
  next
    case False
    with ap show ?thesis using alloc_facts(2) by (simp add: go_append_grows)
  qed
  show "arr sl' = arr sl \<or> arr sl' = next_free st"
  proof (cases "len sl + length xs \<le> cap sl")
    case True
    with ap show ?thesis by (auto simp: go_append_in_place)
  next
    case False
    with ap show ?thesis using alloc_facts(1) by (simp add: go_append_grows)
  qed
  show "a \<noteq> arr sl \<Longrightarrow> a < next_free st \<Longrightarrow> arrays st' a = arrays st a"
  proof (cases "len sl + length xs \<le> cap sl")
    case True
    with ap show "a \<noteq> arr sl \<Longrightarrow> ?thesis" by (auto simp: go_append_in_place)
  next
    case False
    with ap have "alloc st (elems st sl @ xs) (grow (cap sl) (len sl + length xs)) = (sl', st')"
      by (simp add: go_append_grows)
    from alloc_facts(3) [OF this] show "a < next_free st \<Longrightarrow> ?thesis" by simp
  qed
  show "elems st' sl' = elems st sl @ xs"
  proof (cases "len sl + length xs \<le> cap sl")
    case True
    with v have fits: "off sl + len sl + length xs \<le> length (arrays st (arr sl))"
      by (simp add: valid_slice_def)
    from ap True have "elems st' sl' = take (len sl + length xs) (drop (off sl)
        (take (off sl + len sl) (arrays st (arr sl)) @ xs @
         drop (off sl + len sl + length xs) (arrays st (arr sl))))"
      by (auto simp: go_append_in_place elems_def)
    also have "\<dots> = take (len sl) (drop (off sl) (arrays st (arr sl))) @ xs"
      using fits by (rule overwrite_window)
    finally show ?thesis by (simp add: elems_def)
  next
    case False
    with ap have "alloc st (elems st sl @ xs) (grow (cap sl) (len sl + length xs)) = (sl', st')"
      by (simp add: go_append_grows)
    from alloc_facts(4) [OF this] show ?thesis .
  qed
  show "valid_slice st' sl'"
  proof (cases "len sl + length xs \<le> cap sl")
    case True
    with v have fits: "off sl + len sl + length xs \<le> length (arrays st (arr sl))"
      by (simp add: valid_slice_def)
    with ap True v show ?thesis
      by (auto simp: go_append_in_place valid_slice_def)
  next
    case False
    with ap have "alloc st (elems st sl @ xs) (grow (cap sl) (len sl + length xs)) = (sl', st')"
      by (simp add: go_append_grows)
    from alloc_facts(5) [OF this] show ?thesis .
  qed
qed

lemma go_append_other_arrays:
  assumes "go_append grow st sl xs = (sl', st')" "a \<noteq> arr sl" "a < next_free st"
  shows "arrays st' a = arrays st a"
  using assms by (auto simp: go_append_def alloc_def Let_def split: if_splits)

lemma elems_same_array:
  "arrays st' (arr sl) = arrays st (arr sl) \<Longrightarrow> elems st' sl = elems st sl"
  by (simp add: elems_def)

lemma valid_slice_kept:
  "valid_slice st sl \<Longrightarrow> arrays st' (arr sl) = arrays st (arr sl) \<Longrightarrow>
   next_free st \<le> next_free st' \<Longrightarrow> valid_slice st' sl"
  by (simp add: valid_slice_def)

lemma length_elems: "valid_slice st sl \<Longrightarrow> length (elems st sl) = len sl"
  by (auto simp: valid_slice_def elems_def)

lemma CommandContext_mem_facts:
  "built_apart (next_free st) (arrays st) (CommandContext_mem name st)"
  "elems (snd (CommandContext_mem name st)) (Args_c (fst (CommandContext_mem name st))) = [name]"
  "Path_c (fst (CommandContext_mem name st)) = name"
  "next_free st \<le> next_free (snd (CommandContext_mem name st))"
  by (simp_all add: CommandContext_mem_def alloc_def Let_def built_apart_def valid_slice_def
      elems_def)

lemma append_Args_facts:
  assumes b: "built_apart n0 old cs"
  shows "built_apart n0 old (append_Args grow xs cs)"
    and "elems (snd (append_Args grow xs cs)) (Args_c (fst (append_Args grow xs cs))) =
           elems (snd cs) (Args_c (fst cs)) @ xs"
    and "Path_c (fst (append_Args grow xs cs)) = Path_c (fst cs)"
    and "Dir_c (fst (append_Args grow xs cs)) = Dir_c (fst cs)"
    and "Env_c (fst (append_Args grow xs cs)) = Env_c (fst cs)"
proof -
  obtain a st' where ap: "go_append grow (snd cs) (Args_c (fst cs)) xs = (a, st')"
    by (cases "go_append grow (snd cs) (Args_c (fst cs)) xs")
  then have res: "append_Args grow xs cs = ((fst cs)\<lparr>Args_c := a\<rparr>, st')"
    by (simp add: append_Args_def)
  from b have v: "valid_slice (snd cs) (Args_c (fst cs))" and n0: "n0 \<le> arr (Args_c (fst cs))"
    and old: "\<forall>a < n0. arrays (snd cs) a = old a"
    by (simp_all add: built_apart_def)
  from v have below: "arr (Args_c (fst cs)) < next_free (snd cs)"
    by (simp add: valid_slice_def)
  note f = go_append_facts [OF ap v]
  have "n0 \<le> arr a"
    using f(2) n0 below by auto
  moreover have "valid_slice st' a"
    by (rule f(5))
  moreover have "\<forall>x < n0. arrays st' x = old x"
    using f(3) old n0 below by auto
  ultimately show "built_apart n0 old (append_Args grow xs cs)"
    by (simp add: res built_apart_def)
  show "elems (snd (append_Args grow xs cs)) (Args_c (fst (append_Args grow xs cs))) =
           elems (snd cs) (Args_c (fst cs)) @ xs"
    using f(4) by (simp add: res)
  show "Path_c (fst (append_Args grow xs cs)) = Path_c (fst cs)"
    "Dir_c (fst (append_Args grow xs cs)) = Dir_c (fst cs)"
    "Env_c (fst (append_Args grow xs cs)) = Env_c (fst cs)"
    by (simp_all add: res)
qed

lemma Environ_mem_facts:
  assumes b: "built_apart n0 old cs"
  shows "built_apart n0 old (Environ_mem grow w cs)"
    and "env_apart n0 (Environ_mem grow w cs)"
    and "elems (snd (Environ_mem grow w cs)) (Env_c (fst (Environ_mem grow w cs))) = Environ w"
    and "elems (snd (Environ_mem grow w cs)) (Args_c (fst (Environ_mem grow w cs))) =
           elems (snd cs) (Args_c (fst cs))"
    and "Path_c (fst (Environ_mem grow w cs)) = Path_c (fst cs)"
    and "Dir_c (fst (Environ_mem grow w cs)) = Dir_c (fst cs)"
proof -
  obtain e st' where al: "alloc (snd cs) (Environ w) (grow 0 (length (Environ w))) = (e, st')"
    by (cases "alloc (snd cs) (Environ w) (grow 0 (length (Environ w)))")
  then have res: "Environ_mem grow w cs = ((fst cs)\<lparr>Env_c := e\<rparr>, st')"
    by (simp add: Environ_mem_def)
  from b have v: "valid_slice (snd cs) (Args_c (fst cs))" and n0: "n0 \<le> arr (Args_c (fst cs))"
    and old: "\<forall>a < n0. arrays (snd cs) a = old a"
    by (simp_all add: built_apart_def)
  from v have below: "arr (Args_c (fst cs)) < next_free (snd cs)"
    by (simp add: valid_slice_def)
  have e_arr: "arr e = next_free (snd cs)"
    by (rule alloc_facts(1) [OF al])
  have nf: "next_free st' = Suc (next_free (snd cs))"
    by (rule alloc_facts(2) [OF al])
  have others: "arrays st' x = arrays (snd cs) x" if "x \<noteq> next_free (snd cs)" for x
    using that by (rule alloc_facts(3) [OF al])
  have same: "arrays st' (arr (Args_c (fst cs))) = arrays (snd cs) (arr (Args_c (fst cs)))"
    using below by (intro others) simp
  have v': "valid_slice st' (Args_c (fst cs))"
    using v same by (rule valid_slice_kept) (simp add: nf)
  have kept: "\<forall>x < n0. arrays st' x = old x"
  proof (intro allI impI)
    fix x assume x: "x < n0"
    with n0 below have "x \<noteq> next_free (snd cs)" by simp
    then have "arrays st' x = arrays (snd cs) x" by (rule others)
    with old x show "arrays st' x = old x" by simp
  qed
  from n0 v' kept show "built_apart n0 old (Environ_mem grow w cs)"
    by (simp add: res built_apart_def)
  have "n0 \<le> arr e" "arr e \<noteq> arr (Args_c (fst cs))"
    using e_arr n0 below by simp_all
  moreover have "valid_slice st' e"
    by (rule alloc_facts(5) [OF al])
  ultimately show "env_apart n0 (Environ_mem grow w cs)"
    by (simp add: res env_apart_def)
  show "elems (snd (Environ_mem grow w cs)) (Env_c (fst (Environ_mem grow w cs))) = Environ w"
    using alloc_facts(4) [OF al] by (simp add: res)
  show "elems (snd (Environ_mem grow w cs)) (Args_c (fst (Environ_mem grow w cs))) =
           elems (snd cs) (Args_c (fst cs))"
    using elems_same_array [OF same] by (simp add: res)
  show "Path_c (fst (Environ_mem grow w cs)) = Path_c (fst cs)"
    "Dir_c (fst (Environ_mem grow w cs)) = Dir_c (fst cs)"
    by (simp_all add: res)
qed

lemma append_Env_facts:
  assumes b: "built_apart n0 old cs" and e: "env_apart n0 cs"
  shows "built_apart n0 old (append_Env grow xs cs)"
    and "env_apart n0 (append_Env grow xs cs)"
    and "elems (snd (append_Env grow xs cs)) (Env_c (fst (append_Env grow xs cs))) =
           elems (snd cs) (Env_c (fst cs)) @ xs"
    and "elems (snd (append_Env grow xs cs)) (Args_c (fst (append_Env grow xs cs))) =
           elems (snd cs) (Args_c (fst cs))"
    and "Path_c (fst (append_Env grow xs cs)) = Path_c (fst cs)"
    and "Dir_c (fst (append_Env grow xs cs)) = Dir_c (fst cs)"
proof -
  obtain a st' where ap: "go_append grow (snd cs) (Env_c (fst cs)) xs = (a, st')"
    by (cases "go_append grow (snd cs) (Env_c (fst cs)) xs")
  then have res: "append_Env grow xs cs = ((fst cs)\<lparr>Env_c := a\<rparr>, st')"
    by (simp add: append_Env_def)
  from b have v: "valid_slice (snd cs) (Args_c (fst cs))" and n0: "n0 \<le> arr (Args_c (fst cs))"
    and old: "\<forall>a < n0. arrays (snd cs) a = old a"
    by (simp_all add: built_apart_def)
  from e have ve: "valid_slice (snd cs) (Env_c (fst cs))" and ne: "n0 \<le> arr (Env_c (fst cs))"
    and apart: "arr (Env_c (fst cs)) \<noteq> arr (Args_c (fst cs))"
    by (simp_all add: env_apart_def)
  from v have below: "arr (Args_c (fst cs)) < next_free (snd cs)"
    by (simp add: valid_slice_def)
  from ve have belowe: "arr (Env_c (fst cs)) < next_free (snd cs)"
    by (simp add: valid_slice_def)
  note f = go_append_facts [OF ap ve]
  have same: "arrays st' (arr (Args_c (fst cs))) = arrays (snd cs) (arr (Args_c (fst cs)))"
    using f(3) below apart by simp
  have v': "valid_slice st' (Args_c (fst cs))"
    using v same f(1) by (simp add: valid_slice_kept)
  have "\<forall>x < n0. arrays st' x = old x"
    using f(3) old ne belowe by auto
  with n0 v' show "built_apart n0 old (append_Env grow xs cs)"
    by (simp add: res built_apart_def)
  have "n0 \<le> arr a"
    using f(2) ne belowe by auto
  moreover have "arr a \<noteq> arr (Args_c (fst cs))"
    using f(2) apart below by auto
  ultimately show "env_apart n0 (append_Env grow xs cs)"
    using f(5) by (simp add: res env_apart_def)
  show "elems (snd (append_Env grow xs cs)) (Env_c (fst (append_Env grow xs cs))) =
           elems (snd cs) (Env_c (fst cs)) @ xs"
    using f(4) by (simp add: res)
  show "elems (snd (append_Env grow xs cs)) (Args_c (fst (append_Env grow xs cs))) =
           elems (snd cs) (Args_c (fst cs))"
    using elems_same_array [OF same] by (simp add: res)
  show "Path_c (fst (append_Env grow xs cs)) = Path_c (fst cs)"
    "Dir_c (fst (append_Env grow xs cs)) = Dir_c (fst cs)"
    by (simp_all add: res)
qed

lemma new_cmd_Path_Dir:
  "Path (new_cmd w svc sc) = ''git''" "Cmd.Dir (new_cmd w svc sc) = ServiceCommand.Dir sc"
  by (simp_all add: new_cmd_def CommandContext_def Let_def)

lemma built_apart_Dir:
  "built_apart n0 old cs \<Longrightarrow> built_apart n0 old ((fst cs)\<lparr>Dir_c := d\<rparr>, snd cs)"
  by (simp add: built_apart_def)

lemma built_apart_reads:
  assumes "built_apart n0 old cs" "arr sl < n0"
  shows "elems (snd cs) sl = take (len sl) (drop (off sl) (old (arr sl)))"
  using assms by (simp add: built_apart_def elems_def)

text \<open>The configuration after the statements of lines 61-81, one after the other.\<close>

lemma new_cmd_mem_facts:
  shows "built_apart (next_free st) (arrays st) (new_cmd_mem grow w svc sm st)"
    and "env_apart (next_free st) (new_cmd_mem grow w svc sm st)"
    and "Path_c (fst (new_cmd_mem grow w svc sm st)) = ''git''"
    and "Dir_c (fst (new_cmd_mem grow w svc sm st)) = Dir_s sm"
    and "arr (Args_s sm) < next_free st \<Longrightarrow>
         elems (snd (new_cmd_mem grow w svc sm st)) (Args_c (fst (new_cmd_mem grow w svc sm st))) =
           [''git'', ''-c'', ''uploadpack.allowFilter=true'', ''-c'',
            ''receive.advertisePushOptions=true'', ''-c'', ''filter.lfs.required='', ''-c'',
            ''filter.lfs.smudge='', ''-c'', ''filter.lfs.clean='', Name svc] @
           (if len (Args_s sm) > 0 then elems st (Args_s sm) else []) @ [''.'']"
    and "arr (Env_s sm) < next_free st \<Longrightarrow>
         elems (snd (new_cmd_mem grow w svc sm st)) (Env_c (fst (new_cmd_mem grow w svc sm st))) =
           Environ w @ (if len (Env_s sm) > 0 then elems st (Env_s sm) else [])"
proof -
  let ?n = "next_free st" and ?old = "arrays st"
  define cs1 where "cs1 = ((fst (CommandContext_mem ''git'' st))\<lparr>Dir_c := Dir_s sm\<rparr>,
                     snd (CommandContext_mem ''git'' st))"
  define cs2 where "cs2 = append_Args grow
                [''-c'', ''uploadpack.allowFilter=true'',
                 ''-c'', ''receive.advertisePushOptions=true'',
                 ''-c'', ''filter.lfs.required='', ''-c'', ''filter.lfs.smudge='',
                 ''-c'', ''filter.lfs.clean='',
                 Name svc] cs1"
  define cs3 where "cs3 = (if len (Args_s sm) > 0
               then append_Args grow (elems (snd cs2) (Args_s sm)) cs2 else cs2)"
  define cs4 where "cs4 = append_Args grow [''.''] cs3"
  define cs5 where "cs5 = Environ_mem grow w cs4"
  define cs6 where "cs6 = (if len (Env_s sm) > 0
               then append_Env grow (elems (snd cs5) (Env_s sm)) cs5 else cs5)"
  have res: "new_cmd_mem grow w svc sm st = cs6"
    by (simp add: new_cmd_mem_def Let_def cs1_def cs2_def cs3_def cs4_def cs5_def cs6_def)
  have b1: "built_apart ?n ?old cs1"
    unfolding cs1_def by (rule built_apart_Dir) (rule CommandContext_mem_facts(1))
  have r1: "elems (snd cs1) (Args_c (fst cs1)) = [''git'']" "Path_c (fst cs1) = ''git''"
    "Dir_c (fst cs1) = Dir_s sm"
    by (simp_all add: cs1_def CommandContext_mem_facts)
  have b2: "built_apart ?n ?old cs2"
    unfolding cs2_def using b1 by (rule append_Args_facts(1))
  have r2: "elems (snd cs2) (Args_c (fst cs2)) =
      [''git'', ''-c'', ''uploadpack.allowFilter=true'', ''-c'',
       ''receive.advertisePushOptions=true'', ''-c'', ''filter.lfs.required='', ''-c'',
       ''filter.lfs.smudge='', ''-c'', ''filter.lfs.clean='', Name svc]"
    "Path_c (fst cs2) = ''git''" "Dir_c (fst cs2) = Dir_s sm"
    unfolding cs2_def by (simp_all add: append_Args_facts [OF b1] r1)
  have b3: "built_apart ?n ?old cs3"
    unfolding cs3_def using b2 by (simp add: append_Args_facts(1))
  have r3: "elems (snd cs3) (Args_c (fst cs3)) =
      [''git'', ''-c'', ''uploadpack.allowFilter=true'', ''-c'',
       ''receive.advertisePushOptions=true'', ''-c'', ''filter.lfs.required='', ''-c'',
       ''filter.lfs.smudge='', ''-c'', ''filter.lfs.clean='', Name svc] @
      (if len (Args_s sm) > 0 then elems (snd cs2) (Args_s sm) else [])"
    "Path_c (fst cs3) = ''git''" "Dir_c (fst cs3) = Dir_s sm"
    unfolding cs3_def by (simp_all add: append_Args_facts [OF b2] r2)
  have b4: "built_apart ?n ?old cs4"
    unfolding cs4_def using b3 by (rule append_Args_facts(1))
  have r4: "elems (snd cs4) (Args_c (fst cs4)) =
      [''git'', ''-c'', ''uploadpack.allowFilter=true'', ''-c'',
       ''receive.advertisePushOptions=true'', ''-c'', ''filter.lfs.required='', ''-c'',
       ''filter.lfs.smudge='', ''-c'', ''filter.lfs.clean='', Name svc] @
      (if len (Args_s sm) > 0 then elems (snd cs2) (Args_s sm) else []) @ [''.'']"
    "Path_c (fst cs4) = ''git''" "Dir_c (fst cs4) = Dir_s sm"
    unfolding cs4_def by (simp_all add: append_Args_facts [OF b3] r3)
  have b5: "built_apart ?n ?old cs5"
    unfolding cs5_def using b4 by (rule Environ_mem_facts(1))
  have e5: "env_apart ?n cs5"
    unfolding cs5_def using b4 by (rule Environ_mem_facts(2))
  have r5: "elems (snd cs5) (Args_c (fst cs5)) = elems (snd cs4) (Args_c (fst cs4))"
    "elems (snd cs5) (Env_c (fst cs5)) = Environ w"
    "Path_c (fst cs5) = ''git''" "Dir_c (fst cs5) = Dir_s sm"
    unfolding cs5_def by (simp_all add: Environ_mem_facts [OF b4] r4)
  show "built_apart ?n ?old (new_cmd_mem grow w svc sm st)"
    unfolding res cs6_def using b5 e5 by (simp add: append_Env_facts(1))
  show "env_apart ?n (new_cmd_mem grow w svc sm st)"
    unfolding res cs6_def using b5 e5 by (simp add: append_Env_facts(2))
  show "Path_c (fst (new_cmd_mem grow w svc sm st)) = ''git''"
    "Dir_c (fst (new_cmd_mem grow w svc sm st)) = Dir_s sm"
    unfolding res cs6_def by (simp_all add: append_Env_facts [OF b5 e5] r5)
  have a6: "elems (snd cs6) (Args_c (fst cs6)) =
      [''git'', ''-c'', ''uploadpack.allowFilter=true'', ''-c'',
       ''receive.advertisePushOptions=true'', ''-c'', ''filter.lfs.required='', ''-c'',
       ''filter.lfs.smudge='', ''-c'', ''filter.lfs.clean='', Name svc] @
      (if len (Args_s sm) > 0 then elems (snd cs2) (Args_s sm) else []) @ [''.'']"
    unfolding cs6_def by (simp add: append_Env_facts [OF b5 e5] r5 r4)
  have e6: "elems (snd cs6) (Env_c (fst cs6)) =
      Environ w @ (if len (Env_s sm) > 0 then elems (snd cs5) (Env_s sm) else [])"
    unfolding cs6_def by (simp add: append_Env_facts [OF b5 e5] r5)
  show "elems (snd (new_cmd_mem grow w svc sm st)) (Args_c (fst (new_cmd_mem grow w svc sm st))) =
           [''git'', ''-c'', ''uploadpack.allowFilter=true'', ''-c'',
            ''receive.advertisePushOptions=true'', ''-c'', ''filter.lfs.required='', ''-c'',
            ''filter.lfs.smudge='', ''-c'', ''filter.lfs.clean='', Name svc] @
           (if len (Args_s sm) > 0 then elems st (Args_s sm) else []) @ [''.'']"
    if "arr (Args_s sm) < next_free st"
    using a6 built_apart_reads [OF b2 that] by (simp add: res elems_def)
  show "elems (snd (new_cmd_mem grow w svc sm st)) (Env_c (fst (new_cmd_mem grow w svc sm st))) =
           Environ w @ (if len (Env_s sm) > 0 then elems st (Env_s sm) else [])"
    if "arr (Env_s sm) < next_free st"
    using e6 built_apart_reads [OF b5 that] by (simp add: res elems_def)
qed

lemma new_cmd_mem_reads:
  assumes va: "valid_slice st (Args_s sm)" and ve: "valid_slice st (Env_s sm)"
  shows "read_cmd (new_cmd_mem grow w svc sm st) = new_cmd w svc (read_scmd sm st)"
proof -
  from va ve have below: "arr (Args_s sm) < next_free st" "arr (Env_s sm) < next_free st"
    by (simp_all add: valid_slice_def)
  have la: "length (elems st (Args_s sm)) = len (Args_s sm)"
    and le: "length (elems st (Env_s sm)) = len (Env_s sm)"
    using va ve by (simp_all add: length_elems)
  have args: "elems (snd (new_cmd_mem grow w svc sm st)) (Args_c (fst (new_cmd_mem grow w svc sm st))) =
      [''git'', ''-c'', ''uploadpack.allowFilter=true'', ''-c'',
       ''receive.advertisePushOptions=true'', ''-c'', ''filter.lfs.required='', ''-c'',
       ''filter.lfs.smudge='', ''-c'', ''filter.lfs.clean='', Name svc] @
      elems st (Args_s sm) @ [''.'']"
    using new_cmd_mem_facts(5) [OF below(1)] la by auto
  have env: "elems (snd (new_cmd_mem grow w svc sm st)) (Env_c (fst (new_cmd_mem grow w svc sm st))) =
      Environ w @ elems st (Env_s sm)"
    using new_cmd_mem_facts(6) [OF below(2)] le by auto
  have "Cmd.Args (new_cmd w svc (read_scmd sm st)) =
      [''git'', ''-c'', ''uploadpack.allowFilter=true'', ''-c'',
       ''receive.advertisePushOptions=true'', ''-c'', ''filter.lfs.required='', ''-c'',
       ''filter.lfs.smudge='', ''-c'', ''filter.lfs.clean='', Name svc] @
      elems st (Args_s sm) @ [''.'']"
    by (simp add: new_cmd_Args read_scmd_def)
  moreover have "Cmd.Env (new_cmd w svc (read_scmd sm st)) = Environ w @ elems st (Env_s sm)"
    by (simp add: new_cmd_Env read_scmd_def)
  moreover have "Path (new_cmd w svc (read_scmd sm st)) = ''git''"
    "Cmd.Dir (new_cmd w svc (read_scmd sm st)) = Dir_s sm"
    by (simp_all add: new_cmd_Path_Dir read_scmd_def)
  ultimately show ?thesis
    using args env new_cmd_mem_facts(3,4) [of grow w svc sm st] by (simp add: read_cmd_def)
qed

lemma append_Args_confined: "hook_confined (append_Args grow xs)"
  unfolding hook_confined_def
proof (intro allI impI)
  fix c :: Cmd_mem and st :: store and a
  assume a: "a < next_free st \<and> a \<noteq> arr (Args_c c) \<and> a \<noteq> arr (Env_c c)"
  obtain sl' st' where ap: "go_append grow st (Args_c c) xs = (sl', st')"
    by (cases "go_append grow st (Args_c c) xs")
  from go_append_other_arrays [OF ap] a have "arrays st' a = arrays st a"
    by simp
  with ap show "arrays (snd (append_Args grow xs (c, st))) a = arrays st a"
    by (simp add: append_Args_def)
qed

lemma old_arrays_unchanged:
  assumes hook: "\<forall>f. CmdFunc_s sm = Some f \<longrightarrow> hook_confined f"
  shows "\<forall>a < next_free st.
           arrays (snd (call_CmdFunc_mem sm (new_cmd_mem grow w svc sm st))) a = arrays st a"
proof (intro allI impI)
  fix a assume a: "a < next_free st"
  let ?R = "new_cmd_mem grow w svc sm st"
  have b: "built_apart (next_free st) (arrays st) ?R" and e: "env_apart (next_free st) ?R"
    by (rule new_cmd_mem_facts)+
  from b have args: "next_free st \<le> arr (Args_c (fst ?R))"
    and live: "arr (Args_c (fst ?R)) < next_free (snd ?R)"
    and kept: "arrays (snd ?R) a = arrays st a"
    using a by (simp_all add: built_apart_def valid_slice_def)
  from e have env: "next_free st \<le> arr (Env_c (fst ?R))"
    by (simp add: env_apart_def)
  show "arrays (snd (call_CmdFunc_mem sm ?R)) a = arrays st a"
  proof (cases "CmdFunc_s sm")
    case None
    then show ?thesis by (simp add: call_CmdFunc_mem_def kept)
  next
    case (Some f)
    with hook have "hook_confined f" by simp
    moreover have "a < next_free (snd ?R) \<and> a \<noteq> arr (Args_c (fst ?R)) \<and> a \<noteq> arr (Env_c (fst ?R))"
      using a args live env by simp
    ultimately have "arrays (snd (f (fst ?R, snd ?R))) a = arrays (snd ?R) a"
      unfolding hook_confined_def by blast
    with Some show ?thesis by (simp add: call_CmdFunc_mem_def kept)
  qed
qed

lemma descriptor_in_memory_unchanged:
  assumes va: "valid_slice st (Args_s sm)" and ve: "valid_slice st (Env_s sm)"
    and hook: "\<forall>f. CmdFunc_s sm = Some f \<longrightarrow> hook_confined f"
  shows "read_scmd sm (snd (call_CmdFunc_mem sm (new_cmd_mem grow w svc sm st))) = read_scmd sm st"
proof -
  from va ve have below: "arr (Args_s sm) < next_free st" "arr (Env_s sm) < next_free st"
    by (simp_all add: valid_slice_def)
  from old_arrays_unchanged [OF hook, of st grow w svc] below
  have "arrays (snd (call_CmdFunc_mem sm (new_cmd_mem grow w svc sm st))) (arr (Args_s sm)) =
          arrays st (arr (Args_s sm))"
    "arrays (snd (call_CmdFunc_mem sm (new_cmd_mem grow w svc sm st))) (arr (Env_s sm)) =
          arrays st (arr (Env_s sm))"
    by blast+
  then show ?thesis
    by (simp add: read_scmd_def elems_def)
qed

lemma sample_hook_confined: "hook_confined sample_hook"
proof -
  have eq: "sample_hook = append_Args doubling [''--timeout=5'']"
    by (rule ext) (simp add: sample_hook_def)
  show ?thesis unfolding eq by (rule append_Args_confined)
qed

lemma sample_memory:
  "valid_slice sample_store (Args_s sample_request_mem)"
  "valid_slice sample_store (Env_s sample_request_mem)"
  "\<forall>f. CmdFunc_s sample_request_mem = Some f \<longrightarrow> hook_confined f"
  "read_scmd sample_request_mem sample_store = sample_request"
  by (simp_all add: sample_store_def sample_request_mem_def valid_slice_def
      sample_hook_confined read_scmd_def elems_def sample_request_def)

lemma descriptor_in_frame_unchanged:
  "scmd (final_frame (gitServiceHandler_body w svc sc)) = sc"
proof (cases rule: run_cases [of sc w])
  case (stdin_pipe_fails e)
  then show ?thesis by (simp add: body_stdin_pipe_fails)
next
  case (stdout_pipe_fails e)
  then show ?thesis by (simp add: body_stdout_pipe_fails)
next
  case (stderr_pipe_fails e)
  then show ?thesis by (simp add: body_stderr_pipe_fails)
next
  case (start_fails e)
  then show ?thesis by (simp add: body_start_fails)
next
  case started
  then show ?thesis by (simp add: body_waited)
qed

text \<open>
  Claim C10. On every path (a pipe that cannot be created, a failed start, a failed
  wait, success) the descriptor the function holds when it returns is the one it was
  called with. In memory, where the descriptor's \<^verbatim>\<open>Env\<close> and \<^verbatim>\<open>Args\<close> are slices of
  arrays of the caller: with a hook that writes to no array but those of the
  configuration it is given, every array that existed at the call holds after the hook
  has run what it held before, so the descriptor reads the same; the arrays written are
  those made for the configuration, and the configuration built in them reads as the
  one of \<open>new_cmd\<close>.
\<close>

theorem descriptor_unchanged:
  "scmd (final_frame (gitServiceHandler_body w svc sc)) = sc \<and>
   (valid_slice st (Args_s sm) \<and> valid_slice st (Env_s sm) \<and>
    (\<forall>f. CmdFunc_s sm = Some f \<longrightarrow> hook_confined f) \<longrightarrow>
      (\<forall>a < next_free st.
          arrays (snd (call_CmdFunc_mem sm (new_cmd_mem grow w svc sm st))) a = arrays st a) \<and>
      read_scmd sm (snd (call_CmdFunc_mem sm (new_cmd_mem grow w svc sm st))) = read_scmd sm st \<and>
      read_cmd (new_cmd_mem grow w svc sm st) = new_cmd w svc (read_scmd sm st))"
  using descriptor_in_frame_unchanged [of w svc sc]
    old_arrays_unchanged [of sm st grow w svc]
    descriptor_in_memory_unchanged [of st sm grow w svc]
    new_cmd_mem_reads [of st sm grow w svc]
  by blast

theorem descriptor_unchanged_witness:
  "scmd (final_frame (gitServiceHandler_body quiet_world UploadPackService sample_request)) =
     sample_request \<and>
   read_scmd sample_request_mem
     (snd (call_CmdFunc_mem sample_request_mem
        (new_cmd_mem doubling quiet_world UploadPackService sample_request_mem sample_store))) =
     sample_request \<and>
   arrays (snd (call_CmdFunc_mem sample_request_mem
        (new_cmd_mem doubling quiet_world UploadPackService sample_request_mem sample_store))) 0 =
     [''--stateless-rpc'', [], []] \<and>
   Cmd.Args (read_cmd
        (new_cmd_mem doubling quiet_world UploadPackService sample_request_mem sample_store)) =
     [''git'', ''-c'', ''uploadpack.allowFilter=true'', ''-c'', ''receive.advertisePushOptions=true'',
      ''-c'', ''filter.lfs.required='', ''-c'', ''filter.lfs.smudge='', ''-c'', ''filter.lfs.clean='',
      ''upload-pack'', ''--stateless-rpc'', ''.'']"
proof -
  note th = descriptor_unchanged [of quiet_world UploadPackService sample_request sample_store
      sample_request_mem doubling]
  let ?st' = "snd (call_CmdFunc_mem sample_request_mem
        (new_cmd_mem doubling quiet_world UploadPackService sample_request_mem sample_store))"
  have hyp: "valid_slice sample_store (Args_s sample_request_mem) \<and>
      valid_slice sample_store (Env_s sample_request_mem) \<and>
      (\<forall>f. CmdFunc_s sample_request_mem = Some f \<longrightarrow> hook_confined f)"
    using sample_memory(1-3) by blast
  have a: "scmd (final_frame (gitServiceHandler_body quiet_world UploadPackService sample_request)) =
     sample_request"
    using th by blast
  have b: "read_scmd sample_request_mem ?st' = sample_request"
    using th hyp sample_memory(4) by simp
  have "\<forall>a < next_free sample_store. arrays ?st' a = arrays sample_store a"
    using th hyp by blast
  then have c: "arrays ?st' 0 = [''--stateless-rpc'', [], []]"
    by (simp add: sample_store_def)
  have "read_cmd (new_cmd_mem doubling quiet_world UploadPackService sample_request_mem sample_store) =
      new_cmd quiet_world UploadPackService sample_request"
    using th hyp sample_memory(4) by simp
  then have d: "Cmd.Args (read_cmd
        (new_cmd_mem doubling quiet_world UploadPackService sample_request_mem sample_store)) =
     [''git'', ''-c'', ''uploadpack.allowFilter=true'', ''-c'', ''receive.advertisePushOptions=true'',
      ''-c'', ''filter.lfs.required='', ''-c'', ''filter.lfs.smudge='', ''-c'', ''filter.lfs.clean='',
      ''upload-pack'', ''--stateless-rpc'', ''.'']"
    by (simp add: new_cmd_Args Name_values sample_request_def)
  from a b c d show ?thesis by blast
qed

end
